theory Spec2Isabelle
  imports Main "HOL-Library.Word" "HOL-Library.Log_Nat"
begin

section \<open>Strings, numbers and the document tree\<close>

text \<open>
  A JavaScript string is a sequence of UTF-16 code units.  The regular expressions of
  \<^verbatim>\<open>camera.js\<close> carry no \<^verbatim>\<open>u\<close> flag, so they too work on code units.
  \<open>js\<close> embeds an ASCII literal.
\<close>

type_synonym jschar = "16 word"
type_synonym jsstring = "jschar list"

definition js :: "string \<Rightarrow> jsstring" where
  "js s = map of_char s"

text \<open>The constants at the head of the module.\<close>

definition CORS_PROXY :: jsstring where
  "CORS_PROXY = js ''https://api.allorigins.win/raw?url=''"

definition TWIPCAM_BASE :: jsstring where
  "TWIPCAM_BASE = js ''https://www.twipcam.com''"

definition SNAPSHOT_BASE :: jsstring where
  "SNAPSHOT_BASE = js ''https://c01.twipcam.com/cam/snapshot/''"

text \<open>
  The characters that \<^verbatim>\<open>String.prototype.trim\<close>, the class \<^verbatim>\<open>\s\<close> and the
  leading-blank skipping of \<^verbatim>\<open>parseFloat\<close> treat as blank: WhiteSpace and
  LineTerminator of ECMAScript.
\<close>

definition isLineTerminator :: "jschar \<Rightarrow> bool" where
  "isLineTerminator c = (c = 0x0A \<or> c = 0x0D \<or> c = 0x2028 \<or> c = 0x2029)"

definition isWhiteSpace :: "jschar \<Rightarrow> bool" where
  "isWhiteSpace c =
     (c = 0x09 \<or> c = 0x0B \<or> c = 0x0C \<or> c = 0x20 \<or> c = 0xA0 \<or> c = 0x1680 \<or>
      (0x2000 \<le> c \<and> c \<le> 0x200A) \<or> c = 0x202F \<or> c = 0x205F \<or> c = 0x3000 \<or>
      c = 0xFEFF \<or> isLineTerminator c)"

definition isDigit :: "jschar \<Rightarrow> bool" where
  "isDigit c = (0x30 \<le> c \<and> c \<le> 0x39)"

text \<open>The character class \<^verbatim>\<open>[\d.]\<close>.\<close>

definition isDigitOrDot :: "jschar \<Rightarrow> bool" where
  "isDigitOrDot c = (isDigit c \<or> c = 0x2E)"

definition trim :: "jsstring \<Rightarrow> jsstring" where
  "trim s = rev (dropWhile isWhiteSpace (rev (dropWhile isWhiteSpace s)))"

definition startsWith :: "jsstring \<Rightarrow> jsstring \<Rightarrow> bool" where
  "startsWith p s = (take (length p) s = p)"

text \<open>
  \<^verbatim>\<open>s.replace(pat, '')\<close> with a string pattern: the first occurrence of \<open>pat\<close> is
  removed, the rest is kept.
\<close>

fun removeFirst :: "jsstring \<Rightarrow> jsstring \<Rightarrow> jsstring" where
  "removeFirst pat [] = []"
| "removeFirst pat (c # cs) =
     (if startsWith pat (c # cs) then drop (length pat) (c # cs)
      else c # removeFirst pat cs)"

subsection \<open>Numbers\<close>

text \<open>
  A Number is an IEEE double: a finite value (held exactly, as a rational), an infinity
  or NaN.  The two zeros are one value \<open>Fin 0\<close> here; the module never tells them apart.
\<close>

datatype jsnum = NaN | Fin rat | PosInf | NegInf

text \<open>A Number is falsy when it is zero or NaN.\<close>

fun truthyNum :: "jsnum \<Rightarrow> bool" where
  "truthyNum NaN = False"
| "truthyNum (Fin q) = (q \<noteq> 0)"
| "truthyNum PosInf = True"
| "truthyNum NegInf = True"

text \<open>
  The test \<^verbatim>\<open>detail.lat && detail.lon\<close> reads a field that is \<^verbatim>\<open>null\<close> or a Number.
\<close>

fun truthy :: "jsnum option \<Rightarrow> bool" where
  "truthy None = False"
| "truthy (Some x) = truthyNum x"

definition pow2 :: "int \<Rightarrow> rat" where
  "pow2 k = (if 0 \<le> k then 2 ^ nat k else 1 / 2 ^ nat (- k))"

definition pow10 :: "int \<Rightarrow> rat" where
  "pow10 k = (if 0 \<le> k then 10 ^ nat k else 1 / 10 ^ nat (- k))"

text \<open>For \<open>0 < a\<close>, the exponent \<open>e\<close> with \<open>2 ^ e \<le> a < 2 ^ (e + 1)\<close>.\<close>

definition ilog2 :: "rat \<Rightarrow> int" where
  "ilog2 a =
     (let k = bitlen (fst (quotient_of a)) - bitlen (snd (quotient_of a))
      in if pow2 k \<le> a then k else k - 1)"

definition roundHalfEven :: "rat \<Rightarrow> int" where
  "roundHalfEven x =
     (let f = \<lfloor>x\<rfloor>; r = x - of_int f
      in if r < 1 / 2 then f else if 1 / 2 < r then f + 1
         else if even f then f else f + 1)"

text \<open>
  Rounding of an exact value to the nearest double, ties to even: 53 bits of mantissa,
  subnormals below \<open>2 ^ -1022\<close>, overflow to an infinity from \<open>2 ^ 1024\<close>.
\<close>

definition toDouble :: "rat \<Rightarrow> jsnum" where
  "toDouble q =
     (if q = 0 then Fin 0
      else let a = \<bar>q\<bar>;
               e = max (ilog2 a) (- 1022);
               ulp = pow2 (e - 52);
               v = of_int (roundHalfEven (a / ulp)) * ulp
           in if pow2 1024 \<le> v then (if q < 0 then NegInf else PosInf)
              else Fin (if q < 0 then - v else v))"

definition digitsValue :: "jsstring \<Rightarrow> nat" where
  "digitsValue ds = foldl (\<lambda>n c. 10 * n + unat (c - 0x30)) 0 ds"

text \<open>
  The ExponentPart of a decimal literal at the head of \<open>r\<close>: \<^verbatim>\<open>e\<close> or \<^verbatim>\<open>E\<close>, an
  optional sign and at least one digit.  Anything else is no exponent.
\<close>

definition exponentPart :: "jsstring \<Rightarrow> int" where
  "exponentPart r =
     (case r of
        [] \<Rightarrow> 0
      | c # r1 \<Rightarrow>
          if c = 0x65 \<or> c = 0x45 then
            (case r1 of
               [] \<Rightarrow> 0
             | d # r2 \<Rightarrow>
                 if d = 0x2D then
                   (if takeWhile isDigit r2 = [] then 0
                    else - int (digitsValue (takeWhile isDigit r2)))
                 else if d = 0x2B then int (digitsValue (takeWhile isDigit r2))
                 else int (digitsValue (takeWhile isDigit r1)))
          else 0)"

text \<open>
  \<^verbatim>\<open>parseFloat\<close>: leading blanks are skipped, the longest prefix that is a
  StrDecimalLiteral is read, and its value is rounded to a double; no such prefix
  gives NaN.
\<close>

definition parseUnsigned :: "jsstring \<Rightarrow> rat option" where
  "parseUnsigned u =
     (let ip = takeWhile isDigit u;
          r1 = dropWhile isDigit u;
          dot = (r1 \<noteq> [] \<and> hd r1 = 0x2E);
          fp = (if dot then takeWhile isDigit (tl r1) else []);
          r2 = (if dot then dropWhile isDigit (tl r1) else r1)
      in if ip = [] \<and> fp = [] then None
         else Some (of_nat (digitsValue (ip @ fp)) *
                    pow10 (exponentPart r2 - int (length fp))))"

definition parseFloat :: "jsstring \<Rightarrow> jsnum" where
  "parseFloat s =
     (let t = dropWhile isWhiteSpace s;
          neg = (t \<noteq> [] \<and> hd t = 0x2D);
          u = (if t \<noteq> [] \<and> (hd t = 0x2D \<or> hd t = 0x2B) then tl t else t)
      in if startsWith (js ''Infinity'') u then (if neg then NegInf else PosInf)
         else (case parseUnsigned u of
                 None \<Rightarrow> NaN
               | Some q \<Rightarrow> toDouble (if neg then - q else q)))"

subsection \<open>The document tree\<close>

text \<open>
  What \<^verbatim>\<open>DOMParser.parseFromString(html, 'text/html')\<close> returns: a tree of elements
  (local name, attributes, children), text nodes and comments, and the mode of the
  document.  In quirks mode (a page without doctype) a class selector compares class
  names without regard to ASCII case.
\<close>

datatype node =
    Element jsstring "(jsstring \<times> jsstring) list" "node list"
  | Text jsstring
  | Comment jsstring

record document =
  quirks :: bool
  childNodes :: "node list"

text \<open>An element followed by its descendant elements, in tree order.\<close>

fun elements :: "node \<Rightarrow> node list" where
  "elements (Element t as cs) = Element t as cs # concat (map elements cs)"
| "elements (Text s) = []"
| "elements (Comment s) = []"

fun descendants :: "node \<Rightarrow> node list" where
  "descendants (Element t as cs) = concat (map elements cs)"
| "descendants (Text s) = []"
| "descendants (Comment s) = []"

fun textContent :: "node \<Rightarrow> jsstring" where
  "textContent (Element t as cs) = concat (map textContent cs)"
| "textContent (Text s) = s"
| "textContent (Comment s) = []"

fun tagName :: "node \<Rightarrow> jsstring" where
  "tagName (Element t as cs) = t"
| "tagName (Text s) = []"
| "tagName (Comment s) = []"

text \<open>\<^verbatim>\<open>getAttribute\<close> answers \<^verbatim>\<open>null\<close> (here \<open>None\<close>) for a missing attribute.\<close>

fun getAttribute :: "node \<Rightarrow> jsstring \<Rightarrow> jsstring option" where
  "getAttribute (Element t as cs) n = map_of as n"
| "getAttribute (Text s) n = None"
| "getAttribute (Comment s) n = None"

text \<open>\<^verbatim>\<open>x || fallback\<close> on an attribute: \<^verbatim>\<open>null\<close> and the empty string are falsy.\<close>

definition orElse :: "jsstring option \<Rightarrow> jsstring \<Rightarrow> jsstring" where
  "orElse v d = (case v of None \<Rightarrow> d | Some s \<Rightarrow> if s = [] then d else s)"

definition isAsciiSpace :: "jschar \<Rightarrow> bool" where
  "isAsciiSpace c = (c = 0x09 \<or> c = 0x0A \<or> c = 0x0C \<or> c = 0x0D \<or> c = 0x20)"

text \<open>The class attribute split at ASCII whitespace.\<close>

fun tokens :: "jsstring \<Rightarrow> jsstring \<Rightarrow> jsstring list" where
  "tokens acc [] = (if acc = [] then [] else [acc])"
| "tokens acc (c # cs) =
     (if isAsciiSpace c then (if acc = [] then tokens [] cs else acc # tokens [] cs)
      else tokens (acc @ [c]) cs)"

definition asciiLower :: "jschar \<Rightarrow> jschar" where
  "asciiLower c = (if 0x41 \<le> c \<and> c \<le> 0x5A then c + 0x20 else c)"

definition hasClass :: "bool \<Rightarrow> jsstring \<Rightarrow> node \<Rightarrow> bool" where
  "hasClass q cls n =
     (case getAttribute n (js ''class'') of
        None \<Rightarrow> False
      | Some v \<Rightarrow>
          if q then map asciiLower cls \<in> set (map (map asciiLower) (tokens [] v))
          else cls \<in> set (tokens [] v))"

text \<open>
  The selectors the module uses are a type selector (\<^verbatim>\<open>'a'\<close>, \<^verbatim>\<open>'img'\<close>, \<^verbatim>\<open>'div'\<close>,
  \<^verbatim>\<open>'h1'\<close>) and a class selector (\<^verbatim>\<open>'.cam-list-container'\<close>,
  \<^verbatim>\<open>'.w3-display-bottomright'\<close>, \<^verbatim>\<open>'.video_obj'\<close>).
\<close>

datatype selector = ByTag jsstring | ByClass jsstring

fun matches :: "bool \<Rightarrow> selector \<Rightarrow> node \<Rightarrow> bool" where
  "matches q (ByTag t) n = (tagName n = t)"
| "matches q (ByClass c) n = hasClass q c n"

definition docElements :: "document \<Rightarrow> node list" where
  "docElements doc = concat (map elements (childNodes doc))"

definition querySelectorAll :: "document \<Rightarrow> selector \<Rightarrow> node list" where
  "querySelectorAll doc sel = filter (matches (quirks doc) sel) (docElements doc)"

definition querySelector :: "document \<Rightarrow> selector \<Rightarrow> node option" where
  "querySelector doc sel =
     (case querySelectorAll doc sel of [] \<Rightarrow> None | n # ns \<Rightarrow> Some n)"

text \<open>\<^verbatim>\<open>container.querySelector\<close>: the first descendant of the container that matches.\<close>

definition querySelectorIn :: "bool \<Rightarrow> node \<Rightarrow> selector \<Rightarrow> node option" where
  "querySelectorIn q n sel =
     (case filter (matches q sel) (descendants n) of [] \<Rightarrow> None | m # ms \<Rightarrow> Some m)"

section \<open>The parsers\<close>

subsection \<open>The regular expressions\<close>

text \<open>
  \<^verbatim>\<open>href.match(/\/cam\/(.+)$/)\<close>, group 1.  The match starts at the leftmost
  \<^verbatim>\<open>/cam/\<close> whose remainder, up to the end of the string, is not empty and holds
  no line terminator (the dot matches none).
\<close>

fun matchCamId :: "jsstring \<Rightarrow> jsstring option" where
  "matchCamId [] = None"
| "matchCamId (c # cs) =
     (if startsWith (js ''/cam/'') (c # cs) \<and> drop 5 (c # cs) \<noteq> [] \<and>
         list_all (\<lambda>x. \<not> isLineTerminator x) (drop 5 (c # cs))
      then Some (drop 5 (c # cs))
      else matchCamId cs)"

text \<open>
  The two labels of a detail page, with their colon: U+7DEF U+5EA6 (latitude) and
  U+7D93 U+5EA6 (longitude); and the phrase U+5373 U+6642 U+5F71 U+50CF that is
  stripped from the heading.
\<close>

definition LAT_LABEL :: jsstring where
  "LAT_LABEL = [0x7DEF, 0x5EA6, 0x3A]"

definition LON_LABEL :: jsstring where
  "LON_LABEL = [0x7D93, 0x5EA6, 0x3A]"

definition LIVE_PHRASE :: jsstring where
  "LIVE_PHRASE = [0x5373, 0x6642, 0x5F71, 0x50CF]"

text \<open>
  \<^verbatim>\<open>text.match(/^<label>\s*([\d.]+)/)\<close>, group 1: the label at the start of the
  text, any blanks, then the longest run of digits and dots, which must not be empty.
  The blanks and the run share no character, so no backtracking finds another match.
\<close>

definition matchCoord :: "jsstring \<Rightarrow> jsstring \<Rightarrow> jsstring option" where
  "matchCoord label text =
     (if startsWith label text then
        (let cap = takeWhile isDigitOrDot
                     (dropWhile isWhiteSpace (drop (length label) text))
         in if cap = [] then None else Some cap)
      else None)"

subsection \<open>Records\<close>

text \<open>
  \<open>detail\<close> is what the detail parser returns (\<open>None\<close> is \<^verbatim>\<open>null\<close>).  A camera
  object has the same four fields and two more; a summary made by the list parser has
  no \<open>lat\<close> and \<open>lon\<close> property until a detail resolution writes them.
\<close>

record detail =
  lat :: "jsnum option"
  lon :: "jsnum option"
  name :: jsstring
  liveFeedUrl :: jsstring

record camera = detail +
  idCam :: jsstring
  snapshotUrl :: jsstring

subsection \<open>parseCameraListHTML\<close>

text \<open>
  The body of the \<^verbatim>\<open>forEach\<close> callback: the array \<open>cameras\<close> after the callback
  has run on one container.
\<close>

definition listStep :: "bool \<Rightarrow> camera list \<Rightarrow> node \<Rightarrow> camera list" where
  "listStep q cameras container =
     (case querySelectorIn q container (ByTag (js ''a'')) of
        None \<Rightarrow> cameras
      | Some link \<Rightarrow>
          (case querySelectorIn q container (ByTag (js ''img'')) of
             None \<Rightarrow> cameras
           | Some img \<Rightarrow>
               (case matchCamId (orElse (getAttribute link (js ''href'')) []) of
                  None \<Rightarrow> cameras
                | Some camId \<Rightarrow>
                    cameras @
                    [\<lparr> lat = None, lon = None,
                       name = (case querySelectorIn q container
                                      (ByClass (js ''w3-display-bottomright'')) of
                                 None \<Rightarrow> camId
                               | Some desc \<Rightarrow> trim (textContent desc)),
                       liveFeedUrl = orElse (getAttribute img (js ''data-src'')) [],
                       idCam = camId,
                       snapshotUrl = orElse (getAttribute img (js ''src''))
                                       (SNAPSHOT_BASE @ camId @ js ''.jpg'') \<rparr>])))"

definition parseCameraListHTML :: "(jsstring \<Rightarrow> document) \<Rightarrow> jsstring \<Rightarrow> camera list" where
  "parseCameraListHTML parseFromString html =
     (let doc = parseFromString html
      in foldl (listStep (quirks doc)) []
           (querySelectorAll doc (ByClass (js ''cam-list-container''))))"

subsection \<open>parseCameraDetailHTML\<close>

text \<open>The \<^verbatim>\<open>forEach\<close> callback on one \<^verbatim>\<open>div\<close>: the variables \<open>lat\<close> and \<open>lon\<close> after it.\<close>

definition detailStep :: "jsnum option \<times> jsnum option \<Rightarrow> node \<Rightarrow> jsnum option \<times> jsnum option" where
  "detailStep ll d =
     (let text = trim (textContent d)
      in ((case matchCoord LAT_LABEL text of
             Some c \<Rightarrow> Some (parseFloat c) | None \<Rightarrow> fst ll),
          (case matchCoord LON_LABEL text of
             Some c \<Rightarrow> Some (parseFloat c) | None \<Rightarrow> snd ll)))"

definition parseCameraDetailHTML :: "(jsstring \<Rightarrow> document) \<Rightarrow> jsstring \<Rightarrow> detail" where
  "parseCameraDetailHTML parseFromString html =
     (let doc = parseFromString html;
          ll = foldl detailStep (None, None) (querySelectorAll doc (ByTag (js ''div'')))
      in \<lparr> lat = fst ll, lon = snd ll,
           name = (case querySelector doc (ByTag (js ''h1'')) of
                     None \<Rightarrow> []
                   | Some h1 \<Rightarrow> trim (removeFirst LIVE_PHRASE (textContent h1))),
           liveFeedUrl = (case querySelector doc (ByClass (js ''video_obj'')) of
                            None \<Rightarrow> []
                          | Some imgEl \<Rightarrow> orElse (getAttribute imgEl (js ''data-src'')) []) \<rparr>)"

section \<open>The module\<close>

subsection \<open>What the module takes from its host\<close>

text \<open>
  The built-in functions whose result the module only passes on are parameters: the
  HTML parser, \<^verbatim>\<open>encodeURIComponent\<close> (\<open>None\<close> when it throws a URIError),
  \<^verbatim>\<open>toFixed(4)\<close> and the conversion of a Number to a string in a template.
\<close>

record env =
  parseFromString :: "jsstring \<Rightarrow> document"
  encodeURIComponent :: "jsstring \<Rightarrow> jsstring option"
  toFixed4 :: "jsnum \<Rightarrow> jsstring"
  numberToString :: "jsnum \<Rightarrow> jsstring"

datatype error = URIError | NetworkError | HttpError nat | BodyError

text \<open>
  What the network gives back for a URL: the request fails, or a response with its
  status arrives, whose body may still fail to arrive (\<open>None\<close>).
\<close>

datatype reply = Rejected | Reply nat "jsstring option"

text \<open>
  \<^verbatim>\<open>fetchWithProxy\<close>, run to its end against a network \<open>net\<close>.  \<^verbatim>\<open>response.ok\<close>
  is a status from 200 to 299.
\<close>

definition fetchWithProxy :: "env \<Rightarrow> (jsstring \<Rightarrow> reply) \<Rightarrow> jsstring \<Rightarrow> error + jsstring" where
  "fetchWithProxy e net url =
     (case encodeURIComponent e url of
        None \<Rightarrow> Inl URIError
      | Some u \<Rightarrow>
          (case net (CORS_PROXY @ u) of
             Rejected \<Rightarrow> Inl NetworkError
           | Reply status body \<Rightarrow>
               if \<not> (200 \<le> status \<and> status \<le> 299) then Inl (HttpError status)
               else (case body of None \<Rightarrow> Inl BodyError | Some t \<Rightarrow> Inr t)))"

subsection \<open>State\<close>

text \<open>
  Camera objects live in a store; the two caches hold references, as the arrays and
  values handed to callers do.  \<open>pendingRequests\<close> maps a key to the promise
  registered under it.  The rest is the run-time state the source leaves implicit: the
  async bodies suspended at \<^verbatim>\<open>await fetchWithProxy(url)\<close>, the promises already
  settled, and the URLs \<^verbatim>\<open>fetchWithProxy\<close> has been called with.
\<close>

type_synonym addr = nat
type_synonym promise = nat

datatype task =
    ListTask jsstring jsstring
  | DetailTask jsstring jsstring

datatype result = Cameras "addr list" | Detail "addr option"

record state =
  heap :: "addr \<rightharpoonup> camera"
  nextAddr :: addr
  cameraCache :: "jsstring \<rightharpoonup> addr"
  coordCache :: "jsstring \<rightharpoonup> addr"
  pendingRequests :: "jsstring \<rightharpoonup> promise"
  tasks :: "promise \<rightharpoonup> task"
  settled :: "promise \<rightharpoonup> error + result"
  nextPromise :: promise
  fetchLog :: "jsstring list"

definition initial :: state where
  "initial = \<lparr> heap = Map.empty, nextAddr = 0, cameraCache = Map.empty,
               coordCache = Map.empty, pendingRequests = Map.empty, tasks = Map.empty,
               settled = Map.empty, nextPromise = 0, fetchLog = [] \<rparr>"

text \<open>
  What an async function hands to its caller: a promise already resolved with a value,
  or one that follows the promise registered in \<open>pendingRequests\<close>.
\<close>

datatype answer = Resolved result | Follows promise

text \<open>The key a suspended body deletes in its \<^verbatim>\<open>finally\<close> block.\<close>

definition detailKey :: "jsstring \<Rightarrow> jsstring" where
  "detailKey camId = js ''detail_'' @ camId"

definition listKey :: "env \<Rightarrow> jsnum \<Rightarrow> jsnum \<Rightarrow> jsstring" where
  "listKey e la lo = toFixed4 e la @ js '','' @ toFixed4 e lo"

fun taskKey :: "task \<Rightarrow> jsstring" where
  "taskKey (ListTask url key) = key"
| "taskKey (DetailTask url camId) = detailKey camId"

subsection \<open>fetchCamerasByCoordinate\<close>

text \<open>
  The call runs without suspension up to \<^verbatim>\<open>await fetchWithProxy(url)\<close> of the
  inner body, registers the promise and returns.
\<close>

definition fetchCamerasByCoordinate :: "env \<Rightarrow> jsnum \<Rightarrow> jsnum \<Rightarrow> state \<Rightarrow> answer \<times> state" where
  "fetchCamerasByCoordinate e la lo s =
     (let key = listKey e la lo
      in case pendingRequests s key of
           Some p \<Rightarrow> (Follows p, s)
         | None \<Rightarrow>
             (let p = nextPromise s;
                  url = TWIPCAM_BASE @ js ''/api/v1/query-cam-list-by-coordinate?lat='' @
                        numberToString e la @ js ''&lon='' @ numberToString e lo
              in (Follows p,
                  s\<lparr> tasks := (tasks s)(p \<mapsto> ListTask url key),
                     fetchLog := fetchLog s @ [url],
                     pendingRequests := (pendingRequests s)(key \<mapsto> p),
                     nextPromise := Suc p \<rparr>)))"

text \<open>The objects of a freshly parsed array are stored at consecutive new addresses.\<close>

fun allocAll :: "camera list \<Rightarrow> addr \<Rightarrow> (addr \<rightharpoonup> camera) \<Rightarrow> (addr \<rightharpoonup> camera)" where
  "allocAll [] n h = h"
| "allocAll (c # cs) n h = allocAll cs (Suc n) (h(n \<mapsto> c))"

text \<open>
  The \<^verbatim>\<open>forEach\<close> that stores the cameras: \<open>cam\<close> is a reference with the fields of
  the object it points to.
\<close>

definition mergeStep :: "(jsstring \<rightharpoonup> addr) \<Rightarrow> addr \<times> camera \<Rightarrow> (jsstring \<rightharpoonup> addr)" where
  "mergeStep cache cam =
     (if cache (idCam (snd cam)) \<noteq> None then cache
      else cache(idCam (snd cam) \<mapsto> fst cam))"

definition mergeCameras :: "(jsstring \<rightharpoonup> addr) \<Rightarrow> (addr \<times> camera) list \<Rightarrow> (jsstring \<rightharpoonup> addr)" where
  "mergeCameras cache cams = foldl mergeStep cache cams"

text \<open>The \<^verbatim>\<open>finally\<close> block and the settling of the promise.\<close>

definition finish :: "promise \<Rightarrow> jsstring \<Rightarrow> error + result \<Rightarrow> state \<Rightarrow> state" where
  "finish p key out s =
     s\<lparr> pendingRequests := (pendingRequests s)(key := None),
        tasks := (tasks s)(p := None),
        settled := (settled s)(p \<mapsto> out) \<rparr>"

text \<open>The inner body of \<^verbatim>\<open>fetchCamerasByCoordinate\<close> from its \<^verbatim>\<open>await\<close> on.\<close>

definition resumeList :: "env \<Rightarrow> (jsstring \<Rightarrow> reply) \<Rightarrow> promise \<Rightarrow> jsstring \<Rightarrow> jsstring \<Rightarrow> state \<Rightarrow> state" where
  "resumeList e net p url key s =
     (case fetchWithProxy e net url of
        Inl err \<Rightarrow> finish p key (Inl err) s
      | Inr html \<Rightarrow>
          (let cameras = parseCameraListHTML (parseFromString e) html;
               refs = [nextAddr s ..< nextAddr s + length cameras]
           in finish p key (Inr (Cameras refs))
                (s\<lparr> heap := allocAll cameras (nextAddr s) (heap s),
                    nextAddr := nextAddr s + length cameras,
                    cameraCache := mergeCameras (cameraCache s) (zip refs cameras) \<rparr>)))"

subsection \<open>fetchCameraDetail\<close>

definition fetchCameraDetail :: "env \<Rightarrow> jsstring \<Rightarrow> state \<Rightarrow> answer \<times> state" where
  "fetchCameraDetail e camId s =
     (case coordCache s camId of
        Some a \<Rightarrow> (Resolved (Detail (Some a)), s)
      | None \<Rightarrow>
          (let reqKey = detailKey camId
           in case pendingRequests s reqKey of
                Some p \<Rightarrow> (Follows p, s)
              | None \<Rightarrow>
                  (let p = nextPromise s;
                       url = TWIPCAM_BASE @ js ''/cam/'' @ camId
                   in (Follows p,
                       s\<lparr> tasks := (tasks s)(p \<mapsto> DetailTask url camId),
                          fetchLog := fetchLog s @ [url],
                          pendingRequests := (pendingRequests s)(reqKey \<mapsto> p),
                          nextPromise := Suc p \<rparr>))))"

text \<open>
  The writes to \<open>existing\<close>, the object the summary cache holds: \<open>lat\<close> and \<open>lon\<close>
  always, \<open>liveFeedUrl\<close> and \<open>name\<close> when the detail page gave a non-empty one.
\<close>

definition enrich :: "detail \<Rightarrow> camera \<Rightarrow> camera" where
  "enrich d existing =
     existing\<lparr> lat := lat d, lon := lon d,
               liveFeedUrl := (if liveFeedUrl d \<noteq> [] then liveFeedUrl d
                               else liveFeedUrl existing),
               name := (if name d \<noteq> [] then name d else name existing) \<rparr>"

definition cameraData :: "jsstring \<Rightarrow> detail \<Rightarrow> camera" where
  "cameraData camId d =
     \<lparr> lat = lat d, lon = lon d,
       name = (if name d \<noteq> [] then name d else camId),
       liveFeedUrl = liveFeedUrl d,
       idCam = camId,
       snapshotUrl = SNAPSHOT_BASE @ camId @ js ''.jpg'' \<rparr>"

text \<open>The inner body of \<^verbatim>\<open>fetchCameraDetail\<close> from its \<^verbatim>\<open>await\<close> on.\<close>

definition resumeDetail :: "env \<Rightarrow> (jsstring \<Rightarrow> reply) \<Rightarrow> promise \<Rightarrow> jsstring \<Rightarrow> jsstring \<Rightarrow> state \<Rightarrow> state" where
  "resumeDetail e net p url camId s =
     (case fetchWithProxy e net url of
        Inl err \<Rightarrow> finish p (detailKey camId) (Inl err) s
      | Inr html \<Rightarrow>
          (let d = parseCameraDetailHTML (parseFromString e) html
           in if truthy (lat d) \<and> truthy (lon d) then
                (let a = nextAddr s;
                     h1 = (heap s)(a \<mapsto> cameraData camId d);
                     h2 = (case cameraCache s camId of
                             None \<Rightarrow> h1
                           | Some ex \<Rightarrow> h1(ex := map_option (enrich d) (h1 ex)))
                 in finish p (detailKey camId) (Inr (Detail (Some a)))
                      (s\<lparr> heap := h2, nextAddr := Suc a,
                          coordCache := (coordCache s)(camId \<mapsto> a) \<rparr>))
              else finish p (detailKey camId) (Inr (Detail None)) s))"

text \<open>
  A suspended body runs on when the network has answered.  From there to its end it
  does not suspend again, so the step is atomic; the second \<^verbatim>\<open>await\<close> inside
  \<^verbatim>\<open>fetchWithProxy\<close> lies before any access to the module's state.
\<close>

definition resume :: "env \<Rightarrow> (jsstring \<Rightarrow> reply) \<Rightarrow> promise \<Rightarrow> state \<Rightarrow> state" where
  "resume e net p s =
     (case tasks s p of
        None \<Rightarrow> s
      | Some (ListTask url key) \<Rightarrow> resumeList e net p url key s
      | Some (DetailTask url camId) \<Rightarrow> resumeDetail e net p url camId s)"

subsection \<open>getSnapshotUrl and getCachedCamera\<close>

text \<open>The decimal digits of a natural number, and an integer as a template prints it.\<close>

fun digitsOf :: "nat \<Rightarrow> jsstring" where
  "digitsOf n = (if n < 10 then [of_nat (48 + n)] else digitsOf (n div 10) @ [of_nat (48 + n mod 10)])"

definition showInt :: "int \<Rightarrow> jsstring" where
  "showInt i = (if i < 0 then 0x2D # digitsOf (nat (- i)) else digitsOf (nat i))"

text \<open>\<open>now\<close> is what \<^verbatim>\<open>Date.now()\<close> returns at the call: a whole number of milliseconds.\<close>

definition getSnapshotUrl :: "int \<Rightarrow> jsstring \<Rightarrow> jsstring" where
  "getSnapshotUrl now camId = SNAPSHOT_BASE @ camId @ js ''.jpg?t='' @ showInt now"

definition getCachedCamera :: "state \<Rightarrow> jsstring \<Rightarrow> addr option" where
  "getCachedCamera s camId =
     (case coordCache s camId of Some a \<Rightarrow> Some a | None \<Rightarrow> cameraCache s camId)"

subsection \<open>Runs of the module\<close>

text \<open>
  The module is single-threaded: a run is a sequence of calls from outside and of
  resumptions of suspended bodies, each atomic.  The two read-only operations leave
  the state as it is.
\<close>

datatype event =
    CallList jsnum jsnum
  | CallDetail jsstring
  | CallCached jsstring
  | CallSnapshot int jsstring
  | Resume promise "jsstring \<Rightarrow> reply"

fun exec :: "env \<Rightarrow> event \<Rightarrow> state \<Rightarrow> state" where
  "exec e (CallList la lo) s = snd (fetchCamerasByCoordinate e la lo s)"
| "exec e (CallDetail camId) s = snd (fetchCameraDetail e camId s)"
| "exec e (CallCached camId) s = s"
| "exec e (CallSnapshot now camId) s = s"
| "exec e (Resume p net) s = resume e net p s"

inductive reachable :: "env \<Rightarrow> state \<Rightarrow> bool" for e :: env where
  reachable_initial: "reachable e initial"
| reachable_exec: "reachable e s \<Longrightarrow> reachable e (exec e ev s)"

section \<open>Notions used in the statements\<close>

subsection \<open>First and last matching container\<close>

text \<open>
  The value a container gives for a label, if its trimmed text matches the pattern; the
  value of the first matching container of a list, and of the last one.
\<close>

definition coordValue :: "jsstring \<Rightarrow> node \<Rightarrow> jsnum option" where
  "coordValue label d = map_option parseFloat (matchCoord label (trim (textContent d)))"

definition firstMatch :: "jsstring \<Rightarrow> node list \<Rightarrow> jsnum option" where
  "firstMatch label ds =
     (case List.map_filter (coordValue label) ds of [] \<Rightarrow> None | v # vs \<Rightarrow> Some v)"

definition lastMatch :: "jsstring \<Rightarrow> node list \<Rightarrow> jsnum option" where
  "lastMatch label ds =
     (case rev (List.map_filter (coordValue label) ds) of [] \<Rightarrow> None | v # vs \<Rightarrow> Some v)"

text \<open>
  A text that gives a signed value for a label: the label, any blanks, then a
  hyphen-minus.  A page is signed for a label when every \<^verbatim>\<open>div\<close> that carries the
  label gives a signed value.
\<close>

definition publishesSigned :: "jsstring \<Rightarrow> jsstring \<Rightarrow> bool" where
  "publishesSigned label text =
     (startsWith label text \<and>
      (case dropWhile isWhiteSpace (drop (length label) text) of
         [] \<Rightarrow> False
       | c # cs \<Rightarrow> c = 0x2D))"

definition signedPage :: "jsstring \<Rightarrow> document \<Rightarrow> bool" where
  "signedPage label doc =
     list_all (\<lambda>d. \<not> startsWith label (trim (textContent d)) \<or>
                    publishesSigned label (trim (textContent d)))
       (querySelectorAll doc (ByTag (js ''div'')))"

subsection \<open>Calls, runs and invariants\<close>

text \<open>The URLs the two operations fetch.\<close>

definition detailUrl :: "jsstring \<Rightarrow> jsstring" where
  "detailUrl camId = TWIPCAM_BASE @ js ''/cam/'' @ camId"

definition listUrl :: "env \<Rightarrow> jsnum \<Rightarrow> jsnum \<Rightarrow> jsstring" where
  "listUrl e la lo =
     TWIPCAM_BASE @ js ''/api/v1/query-cam-list-by-coordinate?lat='' @
     numberToString e la @ js ''&lon='' @ numberToString e lo"

text \<open>
  The state after a call that found nothing registered under its key: the body \<open>t\<close> is
  suspended on its fetch of \<open>url\<close> and registered.
\<close>

definition start :: "task \<Rightarrow> jsstring \<Rightarrow> state \<Rightarrow> state" where
  "start t url s =
     s\<lparr> tasks := (tasks s)(nextPromise s \<mapsto> t),
        fetchLog := fetchLog s @ [url],
        pendingRequests := (pendingRequests s)(taskKey t \<mapsto> nextPromise s),
        nextPromise := Suc (nextPromise s) \<rparr>"

definition run :: "env \<Rightarrow> event list \<Rightarrow> state \<Rightarrow> state" where
  "run e evs s = foldl (\<lambda>s ev. exec e ev s) s evs"

text \<open>Whether an event resumes the body behind promise \<open>p\<close>.\<close>

fun resumes :: "promise \<Rightarrow> event \<Rightarrow> bool" where
  "resumes p (Resume q net) = (q = p)"
| "resumes p (CallList la lo) = False"
| "resumes p (CallDetail camId) = False"
| "resumes p (CallCached camId) = False"
| "resumes p (CallSnapshot now camId) = False"

text \<open>
  The pending table and the suspended bodies mirror each other; no promise is both
  suspended and settled; promise numbers in use lie below the next one.
\<close>

definition inv_pending :: "state \<Rightarrow> bool" where
  "inv_pending s \<longleftrightarrow>
     (\<forall>k p. pendingRequests s k = Some p \<longrightarrow> (\<exists>t. tasks s p = Some t \<and> taskKey t = k)) \<and>
     (\<forall>p t. tasks s p = Some t \<longrightarrow>
        pendingRequests s (taskKey t) = Some p \<and> p < nextPromise s \<and> settled s p = None) \<and>
     (\<forall>p out. settled s p = Some out \<longrightarrow> p < nextPromise s)"

text \<open>A camera whose detail request is in flight is not in the detail cache.\<close>

definition inv_detail :: "state \<Rightarrow> bool" where
  "inv_detail s \<longleftrightarrow>
     (\<forall>p url camId. tasks s p = Some (DetailTask url camId) \<longrightarrow> coordCache s camId = None)"

text \<open>
  Cached references point to allocated objects, and no object is in both caches.
\<close>

definition inv_addr :: "state \<Rightarrow> bool" where
  "inv_addr s \<longleftrightarrow>
     (\<forall>i a. coordCache s i = Some a \<longrightarrow> a < nextAddr s \<and> (\<forall>j. cameraCache s j \<noteq> Some a)) \<and>
     (\<forall>i a. cameraCache s i = Some a \<longrightarrow> a < nextAddr s)"

section \<open>Concrete pages and runs\<close>

text \<open>
  Small documents, a host and a network on which the statements below are evaluated.
  \<open>parserOf doc\<close> is a parser that returns \<open>doc\<close> for every text; \<open>pageOf\<close> tells a
  list page from a detail page by the text \<^verbatim>\<open>list\<close>.
\<close>

definition divOf :: "jsstring \<Rightarrow> node" where
  "divOf s = Element (js ''div'') [] [Text s]"

definition bodyOf :: "node list \<Rightarrow> document" where
  "bodyOf ns =
     \<lparr> quirks = False,
       childNodes = [Element (js ''html'') [] [Element (js ''head'') [] [],
                                              Element (js ''body'') [] ns]] \<rparr>"

definition docTwoLat :: document where
  "docTwoLat = bodyOf [divOf (LAT_LABEL @ js '' 1''), divOf (LAT_LABEL @ js '' 2''),
                       divOf (LON_LABEL @ js '' 3'')]"

definition docDetail :: document where
  "docDetail =
     bodyOf [Element (js ''h1'') [] [Text (js ''New'' @ LIVE_PHRASE)],
             Element (js ''img'')
               [(js ''class'', js ''video_obj''), (js ''data-src'', js ''live-a1'')] [],
             divOf (LAT_LABEL @ js '' 1''), divOf (LON_LABEL @ js '' 2'')]"

definition docNoLon :: document where
  "docNoLon = bodyOf [divOf (LAT_LABEL @ js '' 1'')]"

definition docZeroLat :: document where
  "docZeroLat = bodyOf [divOf (LAT_LABEL @ js '' 0''), divOf (LON_LABEL @ js '' 2'')]"

definition docSouth :: document where
  "docSouth = bodyOf [divOf (LAT_LABEL @ js '' -33.5''), divOf (LON_LABEL @ js '' 2'')]"

definition docMixed :: document where
  "docMixed = bodyOf [divOf (LAT_LABEL @ js '' -33.5''), divOf (LAT_LABEL @ js '' 3''),
                      divOf (LON_LABEL @ js '' 2'')]"

definition containerA1 :: node where
  "containerA1 =
     Element (js ''div'') [(js ''class'', js ''w3-col cam-list-container'')]
       [Element (js ''a'') [(js ''href'', js ''/cam/A1'')]
          [Element (js ''img'') [(js ''src'', js ''s1.jpg''), (js ''data-src'', js ''old-live'')] []],
        Element (js ''div'') [(js ''class'', js ''w3-display-bottomright'')] [Text (js '' Old '')]]"

definition containerB2 :: node where
  "containerB2 =
     Element (js ''div'') [(js ''class'', js ''cam-list-container'')]
       [Element (js ''a'') [(js ''href'', js ''https://www.twipcam.com/cam/B2'')]
          [Element (js ''img'') [] []]]"

definition containerNoImg :: node where
  "containerNoImg =
     Element (js ''div'') [(js ''class'', js ''cam-list-container'')]
       [Element (js ''a'') [(js ''href'', js ''/cam/C3'')] []]"

definition containerOther :: node where
  "containerOther =
     Element (js ''div'') [(js ''class'', js ''cam-list-container'')]
       [Element (js ''a'') [(js ''href'', js ''/about'')] [],
        Element (js ''img'') [(js ''src'', js ''x.jpg'')] []]"

definition docList :: document where
  "docList = bodyOf [containerA1, containerB2, containerNoImg, containerOther]"

definition summaryA1 :: camera where
  "summaryA1 = \<lparr> lat = None, lon = None, name = js ''Old'', liveFeedUrl = js ''old-live'',
                 idCam = js ''A1'', snapshotUrl = js ''s1.jpg'' \<rparr>"

definition summaryB2 :: camera where
  "summaryB2 = \<lparr> lat = None, lon = None, name = js ''B2'', liveFeedUrl = [],
                 idCam = js ''B2'',
                 snapshotUrl = js ''https://c01.twipcam.com/cam/snapshot/B2.jpg'' \<rparr>"

definition parserOf :: "document \<Rightarrow> jsstring \<Rightarrow> document" where
  "parserOf doc html = doc"

definition pageOf :: "jsstring \<Rightarrow> document" where
  "pageOf html = (if html = js ''list'' then docList else docDetail)"

definition fixedOf :: "jsnum \<Rightarrow> jsstring" where
  "fixedOf x = js ''0.0000''"

definition envOf :: "(jsstring \<Rightarrow> document) \<Rightarrow> env" where
  "envOf parser =
     \<lparr> parseFromString = parser, encodeURIComponent = Some,
       toFixed4 = fixedOf, numberToString = fixedOf \<rparr>"

definition okBody :: "jsstring \<Rightarrow> jsstring \<Rightarrow> reply" where
  "okBody body url = Reply 200 (Some body)"

definition offline :: "jsstring \<Rightarrow> reply" where
  "offline url = Rejected"

text \<open>The state with one detail request for \<^verbatim>\<open>A1\<close> in flight.\<close>

definition stateAsked :: "env \<Rightarrow> state" where
  "stateAsked e = exec e (CallDetail (js ''A1'')) initial"

text \<open>The state after a list page with \<^verbatim>\<open>A1\<close> and \<^verbatim>\<open>B2\<close> has been merged.\<close>

definition stateListed :: state where
  "stateListed =
     exec (envOf pageOf) (Resume 0 (okBody (js ''list'')))
       (exec (envOf pageOf) (CallList (Fin 0) (Fin 0)) initial)"

text \<open>The state after the detail request for \<^verbatim>\<open>A1\<close> has resolved on the page with both coordinates.\<close>

definition stateResolved :: state where
  "stateResolved =
     exec (envOf (parserOf docDetail)) (Resume 0 (okBody []))
       (stateAsked (envOf (parserOf docDetail)))"

definition parsedDetail :: detail where
  "parsedDetail = \<lparr> lat = Some (Fin 1), lon = Some (Fin 2), name = js ''New'',
                    liveFeedUrl = js ''live-a1'' \<rparr>"

text \<open>The state after \<^verbatim>\<open>A1\<close> has been listed and its detail has been asked for.\<close>

definition stateListedAsked :: state where
  "stateListedAsked = exec (envOf pageOf) (CallDetail (js ''A1'')) stateListed"

section \<open>Lemmas\<close>

subsection \<open>Evaluation\<close>

lemmas string_eval =
  js_def trim_def startsWith_def isWhiteSpace_def isLineTerminator_def isDigit_def
  isDigitOrDot_def isAsciiSpace_def orElse_def LAT_LABEL_def LON_LABEL_def
  LIVE_PHRASE_def matchCoord_def SNAPSHOT_BASE_def TWIPCAM_BASE_def CORS_PROXY_def

lemmas dom_eval =
  hasClass_def docElements_def querySelectorAll_def querySelector_def
  querySelectorIn_def bodyOf_def divOf_def parserOf_def

lemmas number_eval =
  parseFloat_def parseUnsigned_def digitsValue_def exponentPart_def pow10_def

lemma bitlen_small: "bitlen 1 = 1" "bitlen 2 = 2" "bitlen 3 = 2"
  by (simp_all add: bitlen_alt_def floor_log_eq_powr_iff)

lemma toDouble_small:
  "toDouble 0 = Fin 0" "toDouble 1 = Fin 1" "toDouble 2 = Fin 2" "toDouble 3 = Fin 3"
  by (simp_all add: toDouble_def ilog2_def bitlen_small pow2_def roundHalfEven_def Let_def)

subsection \<open>The merge into the summary cache\<close>

lemma mergeStep_keeps: "cache k = Some a \<Longrightarrow> mergeStep cache cam k = Some a"
  by (auto simp add: mergeStep_def)

lemma mergeCameras_keeps: "cache k = Some a \<Longrightarrow> mergeCameras cache cams k = Some a"
  unfolding mergeCameras_def
  by (induction cams arbitrary: cache) (simp_all add: mergeStep_keeps)

lemma mergeCameras_present:
  "\<forall>c \<in> set cams. cache (idCam (snd c)) \<noteq> None \<Longrightarrow> mergeCameras cache cams = cache"
  unfolding mergeCameras_def
  by (induction cams arbitrary: cache) (simp_all add: mergeStep_def)

lemma mergeCameras_covers:
  "c \<in> set cams \<Longrightarrow> mergeCameras cache cams (idCam (snd c)) \<noteq> None"
unfolding mergeCameras_def
proof (induction cams arbitrary: cache)
  case Nil
  then show ?case by simp
next
  case (Cons x xs)
  show ?case
  proof (cases "c = x")
    case True
    have "mergeStep cache x (idCam (snd x)) \<noteq> None"
      by (simp add: mergeStep_def)
    then obtain a where "mergeStep cache x (idCam (snd x)) = Some a" by blast
    then have "mergeCameras (mergeStep cache x) xs (idCam (snd x)) = Some a"
      by (rule mergeCameras_keeps)
    with True show ?thesis by (simp add: mergeCameras_def)
  next
    case False
    with Cons.prems have "c \<in> set xs" by simp
    then show ?thesis using Cons.IH by simp
  qed
qed

lemma mergeCameras_idem:
  "mergeCameras (mergeCameras cache cams) cams = mergeCameras cache cams"
  by (rule mergeCameras_present) (simp add: mergeCameras_covers)

lemma mergeCameras_range:
  "mergeCameras cache cams i = Some a \<Longrightarrow> cache i = Some a \<or> a \<in> fst ` set cams"
  unfolding mergeCameras_def
proof (induction cams arbitrary: cache)
  case Nil
  then show ?case by simp
next
  case (Cons c cs)
  from Cons.prems have "foldl mergeStep (mergeStep cache c) cs i = Some a" by simp
  then have "mergeStep cache c i = Some a \<or> a \<in> fst ` set cs" by (rule Cons.IH)
  then show ?case by (auto simp: mergeStep_def split: if_splits)
qed

lemma allocAll_below: "a < n \<Longrightarrow> allocAll cs n h a = h a"
  by (induction cs arbitrary: n h) simp_all

subsection \<open>The parsers\<close>

lemma lastMatch_Nil: "lastMatch label [] = None"
  by (simp add: lastMatch_def List.map_filter_simps)

lemma lastMatch_snoc:
  "lastMatch label (ds @ [d]) =
     (case coordValue label d of Some v \<Rightarrow> Some v | None \<Rightarrow> lastMatch label ds)"
  by (simp add: lastMatch_def List.map_filter_def split: option.splits)

lemma foldl_detailStep:
  "foldl detailStep ll ds =
     ((case lastMatch LAT_LABEL ds of None \<Rightarrow> fst ll | Some v \<Rightarrow> Some v),
      (case lastMatch LON_LABEL ds of None \<Rightarrow> snd ll | Some v \<Rightarrow> Some v))"
proof (induction ds rule: rev_induct)
  case Nil
  show ?case by (simp add: lastMatch_Nil)
next
  case (snoc d ds)
  have "foldl detailStep ll (ds @ [d]) = detailStep (foldl detailStep ll ds) d"
    by simp
  also have "\<dots> = detailStep
      ((case lastMatch LAT_LABEL ds of None \<Rightarrow> fst ll | Some v \<Rightarrow> Some v),
       (case lastMatch LON_LABEL ds of None \<Rightarrow> snd ll | Some v \<Rightarrow> Some v)) d"
    by (simp only: snoc.IH)
  also have "\<dots> =
     ((case lastMatch LAT_LABEL (ds @ [d]) of None \<Rightarrow> fst ll | Some v \<Rightarrow> Some v),
      (case lastMatch LON_LABEL (ds @ [d]) of None \<Rightarrow> snd ll | Some v \<Rightarrow> Some v))"
    by (simp add: detailStep_def lastMatch_snoc coordValue_def Let_def split: option.splits)
  finally show ?case .
qed

lemma matchCoord_signed: "publishesSigned label text \<Longrightarrow> matchCoord label text = None"
  by (auto simp add: publishesSigned_def matchCoord_def isDigitOrDot_def isDigit_def
      split: list.splits)

lemma lastMatch_None:
  "\<forall>d \<in> set ds. coordValue label d = None \<Longrightarrow> lastMatch label ds = None"
  by (induction ds rule: rev_induct) (simp_all add: lastMatch_Nil lastMatch_snoc)

lemma listStep_acc: "listStep q acc c = acc @ listStep q [] c"
  by (simp add: listStep_def split: option.splits)

lemma foldl_listStep: "foldl (listStep q) acc cs = acc @ concat (map (listStep q []) cs)"
proof (induction cs arbitrary: acc)
  case Nil
  show ?case by simp
next
  case (Cons c cs)
  have "foldl (listStep q) acc (c # cs) = foldl (listStep q) (listStep q acc c) cs"
    by simp
  also have "\<dots> = listStep q acc c @ concat (map (listStep q []) cs)"
    by (rule Cons.IH)
  also have "\<dots> = acc @ concat (map (listStep q []) (c # cs))"
    by (simp add: listStep_acc [of q acc c])
  finally show ?case .
qed

lemma digitsValue_snoc: "digitsValue (ds @ [c]) = 10 * digitsValue ds + unat (c - 0x30)"
  by (simp add: digitsValue_def)

lemma digit_char: "d < 10 \<Longrightarrow> unat ((of_nat (48 + d) :: 16 word) - 0x30) = d"
  by (simp add: unat_of_nat)

lemma digitsValue_digitsOf: "digitsValue (digitsOf n) = n"
proof (induction n rule: digitsOf.induct)
  case (1 n)
  show ?case
  proof (cases "n < 10")
    case True
    then show ?thesis
      by (simp add: digitsValue_def unat_of_nat)
  next
    case False
    then have "digitsOf n = digitsOf (n div 10) @ [of_nat (48 + n mod 10)]"
      by (subst digitsOf.simps) simp
    then have "digitsValue (digitsOf n) = 10 * digitsValue (digitsOf (n div 10)) + n mod 10"
      by (simp add: digitsValue_snoc unat_of_nat del: digitsOf.simps)
    with False 1 show ?thesis by (simp del: digitsOf.simps)
  qed
qed

subsection \<open>Calls and resumptions\<close>

lemma finish_simps [simp]:
  "pendingRequests (finish p k out s) = (pendingRequests s)(k := None)"
  "tasks (finish p k out s) = (tasks s)(p := None)"
  "settled (finish p k out s) = (settled s)(p \<mapsto> out)"
  "heap (finish p k out s) = heap s"
  "nextAddr (finish p k out s) = nextAddr s"
  "cameraCache (finish p k out s) = cameraCache s"
  "coordCache (finish p k out s) = coordCache s"
  "nextPromise (finish p k out s) = nextPromise s"
  "fetchLog (finish p k out s) = fetchLog s"
  by (simp_all add: finish_def)

lemma start_simps [simp]:
  "heap (start t url s) = heap s"
  "nextAddr (start t url s) = nextAddr s"
  "cameraCache (start t url s) = cameraCache s"
  "coordCache (start t url s) = coordCache s"
  "settled (start t url s) = settled s"
  "fetchLog (start t url s) = fetchLog s @ [url]"
  "tasks (start t url s) = (tasks s)(nextPromise s \<mapsto> t)"
  "pendingRequests (start t url s) = (pendingRequests s)(taskKey t \<mapsto> nextPromise s)"
  "nextPromise (start t url s) = Suc (nextPromise s)"
  by (simp_all add: start_def)

lemma fetchCameraDetail_hit:
  "coordCache s camId = Some a \<Longrightarrow>
   fetchCameraDetail e camId s = (Resolved (Detail (Some a)), s)"
  by (simp add: fetchCameraDetail_def)

lemma fetchCameraDetail_pending:
  "coordCache s camId = None \<Longrightarrow> pendingRequests s (detailKey camId) = Some p \<Longrightarrow>
   fetchCameraDetail e camId s = (Follows p, s)"
  by (simp add: fetchCameraDetail_def)

lemma fetchCameraDetail_miss:
  "coordCache s camId = None \<Longrightarrow> pendingRequests s (detailKey camId) = None \<Longrightarrow>
   fetchCameraDetail e camId s =
     (Follows (nextPromise s), start (DetailTask (detailUrl camId) camId) (detailUrl camId) s)"
  by (simp add: fetchCameraDetail_def start_def detailUrl_def Let_def)

lemma fetchCamerasByCoordinate_pending:
  "pendingRequests s (listKey e la lo) = Some p \<Longrightarrow>
   fetchCamerasByCoordinate e la lo s = (Follows p, s)"
  by (simp add: fetchCamerasByCoordinate_def)

lemma fetchCamerasByCoordinate_miss:
  "pendingRequests s (listKey e la lo) = None \<Longrightarrow>
   fetchCamerasByCoordinate e la lo s =
     (Follows (nextPromise s),
      start (ListTask (listUrl e la lo) (listKey e la lo)) (listUrl e la lo) s)"
  by (simp add: fetchCamerasByCoordinate_def start_def listUrl_def Let_def)

lemma inv_pendingD1:
  "inv_pending s \<Longrightarrow> pendingRequests s k = Some p \<Longrightarrow> \<exists>t. tasks s p = Some t \<and> taskKey t = k"
  unfolding inv_pending_def by blast

lemma inv_pendingD2:
  "inv_pending s \<Longrightarrow> tasks s p = Some t \<Longrightarrow> pendingRequests s (taskKey t) = Some p"
  unfolding inv_pending_def by blast

lemma inv_pendingD3:
  "inv_pending s \<Longrightarrow> tasks s p = Some t \<Longrightarrow> p < nextPromise s \<and> settled s p = None"
  unfolding inv_pending_def by blast

lemma inv_pendingD4:
  "inv_pending s \<Longrightarrow> settled s p = Some out \<Longrightarrow> p < nextPromise s"
  unfolding inv_pending_def by blast

text \<open>What a resumption does to the bookkeeping, whatever the network answered.\<close>

lemma resume_pending:
  "tasks s p = Some t \<Longrightarrow>
   pendingRequests (resume e net p s) = (pendingRequests s)(taskKey t := None)"
  by (cases t)
     (simp_all add: resume_def resumeList_def resumeDetail_def Let_def split: sum.splits)

lemma resume_tasks:
  "tasks s p = Some t \<Longrightarrow> tasks (resume e net p s) = (tasks s)(p := None)"
  by (cases t)
     (simp_all add: resume_def resumeList_def resumeDetail_def Let_def split: sum.splits)

lemma resume_settled:
  "tasks s p = Some t \<Longrightarrow> \<exists>out. settled (resume e net p s) = (settled s)(p \<mapsto> out)"
  by (cases t)
     (auto simp add: resume_def resumeList_def resumeDetail_def Let_def split: sum.splits)

lemma resume_nextPromise: "nextPromise (resume e net p s) = nextPromise s"
  by (simp add: resume_def resumeList_def resumeDetail_def Let_def
      split: option.splits task.splits sum.splits)

lemma resume_fetchLog: "fetchLog (resume e net p s) = fetchLog s"
  by (simp add: resume_def resumeList_def resumeDetail_def Let_def
      split: option.splits task.splits sum.splits)

lemma resume_idle: "tasks s p = None \<Longrightarrow> resume e net p s = s"
  by (simp add: resume_def)

lemma inv_pending_resume:
  assumes "inv_pending s"
  shows "inv_pending (resume e net p s)"
proof (cases "tasks s p")
  case None
  then show ?thesis using assms by (simp add: resume_idle)
next
  case (Some t)
  let ?s = "resume e net p s"
  obtain out where out: "settled ?s = (settled s)(p \<mapsto> out)"
    using resume_settled [OF Some] by blast
  note f = resume_pending [OF Some] resume_tasks [OF Some] resume_nextPromise out
  from assms Some have pt: "pendingRequests s (taskKey t) = Some p" "p < nextPromise s"
    by (auto simp: inv_pending_def)
  have 1: "\<exists>u. tasks ?s q = Some u \<and> taskKey u = k" if "pendingRequests ?s k = Some q" for k q
  proof -
    from that have k: "k \<noteq> taskKey t" "pendingRequests s k = Some q"
      by (auto simp: f split: if_splits)
    then obtain u where u: "tasks s q = Some u" "taskKey u = k"
      using assms by (auto simp: inv_pending_def)
    with k Some have "q \<noteq> p" by auto
    with u show ?thesis by (simp add: f)
  qed
  have 2: "pendingRequests ?s (taskKey u) = Some q \<and> q < nextPromise ?s \<and> settled ?s q = None"
    if "tasks ?s q = Some u" for q u
  proof -
    from that have q: "q \<noteq> p" "tasks s q = Some u" by (auto simp: f split: if_splits)
    then have u: "pendingRequests s (taskKey u) = Some q" "q < nextPromise s" "settled s q = None"
      using assms by (auto simp: inv_pending_def)
    with pt q have "taskKey u \<noteq> taskKey t" by auto
    with u q show ?thesis by (simp add: f)
  qed
  have 3: "q < nextPromise ?s" if "settled ?s q = Some o'" for q o'
    using that assms pt by (auto simp: f inv_pending_def split: if_splits)
  show ?thesis unfolding inv_pending_def using 1 2 3 by blast
qed

subsection \<open>Invariants of every run\<close>

lemma inv_pending_start:
  assumes "inv_pending s" and "pendingRequests s (taskKey t) = None"
  shows "inv_pending (start t url s)"
proof -
  let ?s = "start t url s"
  have fresh: "tasks s (nextPromise s) = None" "settled s (nextPromise s) = None"
    using assms(1) by (fastforce simp: inv_pending_def)+
  have 1: "\<exists>u. tasks ?s q = Some u \<and> taskKey u = k" if "pendingRequests ?s k = Some q" for k q
  proof (cases "k = taskKey t")
    case True
    with that show ?thesis by (auto simp: start_def)
  next
    case False
    with that have "pendingRequests s k = Some q" by (simp add: start_def)
    then obtain u where "tasks s q = Some u" "taskKey u = k"
      using assms(1) by (auto simp: inv_pending_def)
    with fresh show ?thesis by (auto simp: start_def)
  qed
  have 2: "pendingRequests ?s (taskKey u) = Some q \<and> q < nextPromise ?s \<and> settled ?s q = None"
    if "tasks ?s q = Some u" for q u
  proof (cases "q = nextPromise s")
    case True
    with that fresh show ?thesis by (auto simp: start_def)
  next
    case False
    with that have "tasks s q = Some u" by (simp add: start_def)
    then have "pendingRequests s (taskKey u) = Some q \<and> q < nextPromise s \<and> settled s q = None"
      using assms(1) by (auto simp: inv_pending_def)
    with assms(2) show ?thesis by (auto simp: start_def)
  qed
  have 3: "q < nextPromise ?s" if "settled ?s q = Some o'" for q o'
    using that assms(1) by (fastforce simp: start_def inv_pending_def)
  show ?thesis unfolding inv_pending_def using 1 2 3 by blast
qed

lemma exec_inv_pending: "inv_pending s \<Longrightarrow> inv_pending (exec e ev s)"
proof (cases ev)
  case (CallList la lo)
  assume i: "inv_pending s"
  show ?thesis
  proof (cases "pendingRequests s (listKey e la lo)")
    case None
    then show ?thesis using i CallList inv_pending_start [of s "ListTask (listUrl e la lo) (listKey e la lo)"]
      by (simp add: fetchCamerasByCoordinate_miss)
  next
    case (Some p)
    then show ?thesis using i CallList by (simp add: fetchCamerasByCoordinate_pending)
  qed
next
  case (CallDetail camId)
  assume i: "inv_pending s"
  show ?thesis
  proof (cases "coordCache s camId")
    case None
    note miss = None
    show ?thesis
    proof (cases "pendingRequests s (detailKey camId)")
      case None
      then show ?thesis using i CallDetail miss
          inv_pending_start [of s "DetailTask (detailUrl camId) camId"]
        by (simp add: fetchCameraDetail_miss)
    next
      case (Some p)
      then show ?thesis using i CallDetail miss by (simp add: fetchCameraDetail_pending)
    qed
  next
    case (Some a)
    then show ?thesis using i CallDetail by (simp add: fetchCameraDetail_hit)
  qed
next
  case (Resume p net)
  assume "inv_pending s"
  then show ?thesis using Resume by (simp add: inv_pending_resume)
qed simp_all

lemma resume_coordCache:
  "coordCache (resume e net p s) i = Some a \<Longrightarrow>
   coordCache s i = Some a \<or>
   (a = nextAddr s \<and> nextAddr (resume e net p s) = Suc a \<and>
    (\<exists>url. tasks s p = Some (DetailTask url i)))"
  by (auto simp add: resume_def resumeList_def resumeDetail_def Let_def
      split: option.splits task.splits sum.splits if_splits)

lemma resume_nextAddr: "nextAddr s \<le> nextAddr (resume e net p s)"
  by (auto simp add: resume_def resumeList_def resumeDetail_def Let_def
      split: option.splits task.splits sum.splits if_splits)

lemma resume_cameraCache:
  "cameraCache (resume e net p s) i = Some a \<Longrightarrow>
   cameraCache s i = Some a \<or>
   (nextAddr s \<le> a \<and> a < nextAddr (resume e net p s) \<and> (\<exists>url key. tasks s p = Some (ListTask url key)))"
proof (cases "tasks s p")
  case None
  assume "cameraCache (resume e net p s) i = Some a"
  with None show ?thesis by (simp add: resume_idle)
next
  case (Some t)
  assume a: "cameraCache (resume e net p s) i = Some a"
  show ?thesis
  proof (cases t)
    case (ListTask url key)
    show ?thesis
    proof (cases "fetchWithProxy e net url")
      case (Inl err)
      with a Some ListTask show ?thesis by (simp add: resume_def resumeList_def)
    next
      case (Inr html)
      let ?cs = "parseCameraListHTML (parseFromString e) html"
      let ?refs = "[nextAddr s ..< nextAddr s + length ?cs]"
      from a Some ListTask Inr
      have "mergeCameras (cameraCache s) (zip ?refs ?cs) i = Some a"
        by (simp add: resume_def resumeList_def Let_def)
      then have "cameraCache s i = Some a \<or> a \<in> fst ` set (zip ?refs ?cs)"
        by (rule mergeCameras_range)
      moreover have "fst ` set (zip ?refs ?cs) \<subseteq> set ?refs"
        by (auto dest: set_zip_leftD)
      moreover have "nextAddr (resume e net p s) = nextAddr s + length ?cs"
        using Some ListTask Inr by (simp add: resume_def resumeList_def Let_def)
      ultimately show ?thesis using Some ListTask by auto
    qed
  next
    case (DetailTask url camId)
    with a Some show ?thesis
      by (auto simp add: resume_def resumeDetail_def Let_def split: sum.splits if_splits)
  qed
qed

lemma inv_addr_resume:
  assumes "inv_addr s"
  shows "inv_addr (resume e net p s)"
proof -
  let ?s = "resume e net p s"
  have 1: "a < nextAddr ?s \<and> (\<forall>j. cameraCache ?s j \<noteq> Some a)" if c: "coordCache ?s i = Some a" for i a
  proof -
    from resume_coordCache [OF c] show ?thesis
    proof
      assume old: "coordCache s i = Some a"
      then have lt: "a < nextAddr s" and no: "\<forall>j. cameraCache s j \<noteq> Some a"
        using assms by (auto simp: inv_addr_def)
      have "cameraCache ?s j \<noteq> Some a" for j
      proof
        assume "cameraCache ?s j = Some a"
        from resume_cameraCache [OF this] lt no show False by auto
      qed
      with lt resume_nextAddr [of s e net p] show ?thesis by auto
    next
      assume new: "a = nextAddr s \<and> nextAddr ?s = Suc a \<and> (\<exists>url. tasks s p = Some (DetailTask url i))"
      have "cameraCache ?s j \<noteq> Some a" for j
      proof
        assume "cameraCache ?s j = Some a"
        from resume_cameraCache [OF this] new assms show False by (auto simp: inv_addr_def)
      qed
      with new show ?thesis by auto
    qed
  qed
  have 2: "a < nextAddr ?s" if c: "cameraCache ?s i = Some a" for i a
  proof -
    from resume_cameraCache [OF c] show ?thesis
    proof
      assume "cameraCache s i = Some a"
      then have "a < nextAddr s" using assms unfolding inv_addr_def by blast
      with resume_nextAddr [of s e net p] show ?thesis by simp
    qed simp
  qed
  show ?thesis unfolding inv_addr_def using 1 2 by blast
qed

lemma exec_inv_addr: "inv_addr s \<Longrightarrow> inv_addr (exec e ev s)"
proof (cases ev)
  case (CallList la lo)
  assume "inv_addr s"
  then show ?thesis using CallList
    by (cases "pendingRequests s (listKey e la lo)")
       (simp_all add: fetchCamerasByCoordinate_pending fetchCamerasByCoordinate_miss inv_addr_def)
next
  case (CallDetail camId)
  assume "inv_addr s"
  then show ?thesis using CallDetail
    by (cases "coordCache s camId"; cases "pendingRequests s (detailKey camId)")
       (simp_all add: fetchCameraDetail_hit fetchCameraDetail_pending fetchCameraDetail_miss
          inv_addr_def)
next
  case (Resume p net)
  assume "inv_addr s"
  then show ?thesis using Resume by (simp add: inv_addr_resume)
qed simp_all

lemma inv_detail_resume:
  assumes "inv_pending s" and "inv_detail s"
  shows "inv_detail (resume e net p s)"
proof (cases "tasks s p")
  case None
  then show ?thesis using assms by (simp add: resume_idle)
next
  case (Some t)
  let ?s = "resume e net p s"
  have "coordCache ?s camId = None" if q: "tasks ?s q = Some (DetailTask url camId)" for q url camId
  proof -
    from q have qp: "q \<noteq> p" and old: "tasks s q = Some (DetailTask url camId)"
      by (auto simp: resume_tasks [OF Some] split: if_splits)
    from old assms(2) have none: "coordCache s camId = None" by (auto simp: inv_detail_def)
    show ?thesis
    proof (rule ccontr)
      assume "coordCache ?s camId \<noteq> None"
      then obtain a where "coordCache ?s camId = Some a" by blast
      from resume_coordCache [OF this] none
      obtain url' where "tasks s p = Some (DetailTask url' camId)" by auto
      then have "pendingRequests s (detailKey camId) = Some p"
        using inv_pendingD2 [OF assms(1), of p "DetailTask url' camId"] by simp
      moreover have "pendingRequests s (detailKey camId) = Some q"
        using inv_pendingD2 [OF assms(1) old] by simp
      ultimately show False using qp by simp
    qed
  qed
  then show ?thesis unfolding inv_detail_def by blast
qed

lemma exec_inv_detail: "inv_pending s \<Longrightarrow> inv_detail s \<Longrightarrow> inv_detail (exec e ev s)"
proof (cases ev)
  case (CallList la lo)
  assume "inv_pending s" "inv_detail s"
  then show ?thesis using CallList
    by (cases "pendingRequests s (listKey e la lo)")
       (auto simp add: fetchCamerasByCoordinate_pending fetchCamerasByCoordinate_miss inv_detail_def)
next
  case (CallDetail camId)
  assume "inv_pending s" "inv_detail s"
  then show ?thesis using CallDetail
    by (cases "coordCache s camId"; cases "pendingRequests s (detailKey camId)")
       (auto simp add: fetchCameraDetail_hit fetchCameraDetail_pending fetchCameraDetail_miss
          inv_detail_def)
next
  case (Resume p net)
  assume "inv_pending s" "inv_detail s"
  then show ?thesis using Resume by (simp add: inv_detail_resume)
qed simp_all

lemma inv_initial: "inv_pending initial" "inv_detail initial" "inv_addr initial"
  by (simp_all add: inv_pending_def inv_detail_def inv_addr_def initial_def)

lemma reachable_inv: "reachable e s \<Longrightarrow> inv_pending s \<and> inv_detail s \<and> inv_addr s"
  by (induction rule: reachable.induct)
     (simp_all add: inv_initial exec_inv_pending exec_inv_detail exec_inv_addr)

subsection \<open>Coalescing\<close>

lemma no_two_in_flight:
  "inv_pending s \<Longrightarrow> tasks s p = Some t \<Longrightarrow> tasks s q = Some u \<Longrightarrow>
   taskKey t = taskKey u \<Longrightarrow> p = q"
  using inv_pendingD2 [of s p t] inv_pendingD2 [of s q u] by simp

lemma pending_iff_task:
  "inv_pending s \<Longrightarrow>
   pendingRequests s k = Some p \<longleftrightarrow> (\<exists>t. tasks s p = Some t \<and> taskKey t = k)"
  using inv_pendingD1 [of s k p] inv_pendingD2 [of s p] by blast

lemma detail_call_in_flight:
  assumes "inv_pending s" "inv_detail s" "tasks s p = Some (DetailTask url camId)"
  shows "fetchCameraDetail e camId s = (Follows p, s)"
proof -
  have "coordCache s camId = None" using assms(2,3) unfolding inv_detail_def by blast
  moreover have "pendingRequests s (detailKey camId) = Some p"
    using inv_pendingD2 [OF assms(1,3)] by simp
  ultimately show ?thesis by (rule fetchCameraDetail_pending)
qed

lemma list_call_in_flight:
  assumes "inv_pending s" "tasks s p = Some t" "taskKey t = listKey e la lo"
  shows "fetchCamerasByCoordinate e la lo s = (Follows p, s)"
  using inv_pendingD2 [OF assms(1,2)] assms(3) by (simp add: fetchCamerasByCoordinate_pending)

lemma exec_keeps_task:
  assumes "inv_pending s" "tasks s p = Some t" "\<not> resumes p ev"
  shows "tasks (exec e ev s) p = Some t"
proof -
  have lt: "p \<noteq> nextPromise s" using inv_pendingD3 [OF assms(1,2)] by simp
  show ?thesis
  proof (cases ev)
    case (CallList la lo)
    then show ?thesis using assms(2) lt
      by (cases "pendingRequests s (listKey e la lo)")
         (simp_all add: fetchCamerasByCoordinate_pending fetchCamerasByCoordinate_miss)
  next
    case (CallDetail camId)
    then show ?thesis using assms(2) lt
      by (cases "coordCache s camId"; cases "pendingRequests s (detailKey camId)")
         (simp_all add: fetchCameraDetail_hit fetchCameraDetail_pending fetchCameraDetail_miss)
  next
    case (Resume q net)
    with assms(3) have qp: "q \<noteq> p" by simp
    show ?thesis
    proof (cases "tasks s q")
      case None
      then show ?thesis using Resume assms(2) by (simp add: resume_idle)
    next
      case (Some u)
      then show ?thesis using Resume assms(2) qp by (simp add: resume_tasks)
    qed
  qed (simp_all add: assms(2))
qed

lemma exec_keeps_settled:
  assumes "inv_pending s" "settled s p = Some out"
  shows "settled (exec e ev s) p = Some out"
proof (cases ev)
  case (CallList la lo)
  then show ?thesis using assms(2)
    by (cases "pendingRequests s (listKey e la lo)")
       (simp_all add: fetchCamerasByCoordinate_pending fetchCamerasByCoordinate_miss)
next
  case (CallDetail camId)
  then show ?thesis using assms(2)
    by (cases "coordCache s camId"; cases "pendingRequests s (detailKey camId)")
       (simp_all add: fetchCameraDetail_hit fetchCameraDetail_pending fetchCameraDetail_miss)
next
  case (Resume q net)
  show ?thesis
  proof (cases "tasks s q")
    case None
    then show ?thesis using Resume assms(2) by (simp add: resume_idle)
  next
    case (Some u)
    then have "settled s q = None" using inv_pendingD3 [OF assms(1)] by blast
    with assms(2) have "q \<noteq> p" by auto
    moreover obtain o' where "settled (resume e net q s) = (settled s)(q \<mapsto> o')"
      using resume_settled [OF Some] by blast
    ultimately show ?thesis using Resume assms(2) by simp
  qed
qed (simp_all add: assms(2))

lemma resume_completes:
  assumes "tasks s p = Some t"
  shows "pendingRequests (resume e net p s) (taskKey t) = None \<and>
         tasks (resume e net p s) p = None \<and>
         settled (resume e net p s) p \<noteq> None \<and>
         fetchLog (resume e net p s) = fetchLog s"
proof -
  obtain out where "settled (resume e net p s) = (settled s)(p \<mapsto> out)"
    using resume_settled [OF assms] by blast
  then show ?thesis
    by (simp add: resume_pending [OF assms] resume_tasks [OF assms] resume_fetchLog)
qed

subsection \<open>What a resumption changes\<close>

lemma resumeDetail_null:
  assumes "tasks s p = Some (DetailTask url camId)" "fetchWithProxy e net url = Inr html"
    and "\<not> (truthy (lat (parseCameraDetailHTML (parseFromString e) html)) \<and>
            truthy (lon (parseCameraDetailHTML (parseFromString e) html)))"
  shows "resume e net p s = finish p (detailKey camId) (Inr (Detail None)) s"
  using assms by (auto simp add: resume_def resumeDetail_def Let_def)

lemma resumeDetail_found:
  assumes "tasks s p = Some (DetailTask url camId)" "fetchWithProxy e net url = Inr html"
    and "truthy (lat (parseCameraDetailHTML (parseFromString e) html))"
    and "truthy (lon (parseCameraDetailHTML (parseFromString e) html))"
  shows "resume e net p s =
     finish p (detailKey camId) (Inr (Detail (Some (nextAddr s))))
       (s\<lparr> heap :=
            (case cameraCache s camId of
               None \<Rightarrow> (heap s)(nextAddr s \<mapsto>
                          cameraData camId (parseCameraDetailHTML (parseFromString e) html))
             | Some ex \<Rightarrow>
                 ((heap s)(nextAddr s \<mapsto>
                     cameraData camId (parseCameraDetailHTML (parseFromString e) html)))
                 (ex := map_option (enrich (parseCameraDetailHTML (parseFromString e) html))
                          (((heap s)(nextAddr s \<mapsto>
                              cameraData camId
                                (parseCameraDetailHTML (parseFromString e) html))) ex))),
           nextAddr := Suc (nextAddr s),
           coordCache := (coordCache s)(camId \<mapsto> nextAddr s) \<rparr>)"
  using assms by (simp add: resume_def resumeDetail_def Let_def)

lemma resume_cameraCache_keeps:
  "cameraCache s i = Some a \<Longrightarrow> cameraCache (resume e net p s) i = Some a"
  by (auto simp add: resume_def resumeList_def resumeDetail_def Let_def mergeCameras_keeps
      split: option.splits task.splits sum.splits)

lemma resume_coordCache_keeps:
  assumes "inv_detail s" "coordCache s i = Some a"
  shows "coordCache (resume e net p s) i = Some a"
proof (cases "tasks s p")
  case None
  then show ?thesis using assms(2) by (simp add: resume_idle)
next
  case (Some t)
  show ?thesis
  proof (cases t)
    case (ListTask url key)
    with Some assms(2) show ?thesis
      by (simp add: resume_def resumeList_def Let_def split: sum.splits)
  next
    case (DetailTask url camId)
    with Some assms have "camId \<noteq> i" unfolding inv_detail_def by force
    with Some DetailTask assms(2) show ?thesis
      by (simp add: resume_def resumeDetail_def Let_def split: sum.splits)
  qed
qed

lemma resume_heap_keeps:
  assumes "inv_addr s" "coordCache s i = Some a"
  shows "heap (resume e net p s) a = heap s a"
proof -
  from assms have lt: "a < nextAddr s" and no: "\<And>j. cameraCache s j \<noteq> Some a"
    unfolding inv_addr_def by blast+
  show ?thesis
  proof (cases "tasks s p")
    case None
    then show ?thesis by (simp add: resume_idle)
  next
    case (Some t)
    show ?thesis
    proof (cases t)
      case (ListTask url key)
      with Some lt show ?thesis
        by (simp add: resume_def resumeList_def Let_def allocAll_below split: sum.splits)
    next
      case (DetailTask url camId)
      with Some lt no [of camId] show ?thesis
        by (auto simp add: resume_def resumeDetail_def Let_def
            split: sum.splits option.splits)
    qed
  qed
qed

lemma exec_detail_cache_keeps:
  assumes "inv_detail s" "inv_addr s" "coordCache s i = Some a"
  shows "coordCache (exec e ev s) i = Some a \<and> heap (exec e ev s) a = heap s a"
proof (cases ev)
  case (CallList la lo)
  then show ?thesis using assms(3)
    by (cases "pendingRequests s (listKey e la lo)")
       (simp_all add: fetchCamerasByCoordinate_pending fetchCamerasByCoordinate_miss)
next
  case (CallDetail camId)
  then show ?thesis using assms(3)
    by (cases "coordCache s camId"; cases "pendingRequests s (detailKey camId)")
       (simp_all add: fetchCameraDetail_hit fetchCameraDetail_pending fetchCameraDetail_miss)
next
  case (Resume p net)
  then show ?thesis
    using resume_coordCache_keeps [OF assms(1,3)] resume_heap_keeps [OF assms(2,3)] by simp
qed (simp_all add: assms(3))

lemma reachable_run: "reachable e s \<Longrightarrow> reachable e (run e evs s)"
  unfolding run_def
  by (induction evs arbitrary: s) (simp_all add: reachable_exec)

lemma run_detail_cache_keeps:
  "reachable e s \<Longrightarrow> coordCache s i = Some a \<Longrightarrow>
   coordCache (run e evs s) i = Some a \<and> heap (run e evs s) a = heap s a"
proof (induction evs arbitrary: s)
  case Nil
  then show ?case by (simp add: run_def)
next
  case (Cons ev evs)
  from Cons.prems(1) have i: "inv_detail s" "inv_addr s" by (simp_all add: reachable_inv)
  from exec_detail_cache_keeps [OF i Cons.prems(2), of e ev]
  have k: "coordCache (exec e ev s) i = Some a" and h: "heap (exec e ev s) a = heap s a"
    by simp_all
  have "reachable e (exec e ev s)" using Cons.prems(1) by (rule reachable_exec)
  from Cons.IH [OF this k] h show ?case by (simp add: run_def)
qed

lemma resume_settled_found:
  assumes "tasks s p = Some (DetailTask url camId)"
    and "settled (resume e net p s) p = Some (Inr (Detail (Some a)))"
  shows "coordCache (resume e net p s) camId = Some a"
  using assms
  by (auto simp add: resume_def resumeDetail_def Let_def split: sum.splits if_splits)

lemma parse_coords:
  "lat (parseCameraDetailHTML pf html) =
     lastMatch LAT_LABEL (querySelectorAll (pf html) (ByTag (js ''div'')))"
  "lon (parseCameraDetailHTML pf html) =
     lastMatch LON_LABEL (querySelectorAll (pf html) (ByTag (js ''div'')))"
  by (simp_all add: parseCameraDetailHTML_def Let_def foldl_detailStep split: option.splits)

lemma signedPage_lastMatch:
  assumes "signedPage label doc"
  shows "lastMatch label (querySelectorAll doc (ByTag (js ''div''))) = None"
proof (rule lastMatch_None, rule ballI)
  fix d assume "d \<in> set (querySelectorAll doc (ByTag (js ''div'')))"
  with assms have "\<not> startsWith label (trim (textContent d)) \<or>
      publishesSigned label (trim (textContent d))"
    unfolding signedPage_def list_all_iff by blast
  then have "matchCoord label (trim (textContent d)) = None"
    by (auto simp: matchCoord_signed) (simp add: matchCoord_def)
  then show "coordValue label d = None" by (simp add: coordValue_def)
qed

lemma resumeDetail_success:
  assumes "inv_addr s" "tasks s p = Some (DetailTask url camId)"
    and "fetchWithProxy e net url = Inr html"
    and "truthy (lat (parseCameraDetailHTML (parseFromString e) html))"
    and "truthy (lon (parseCameraDetailHTML (parseFromString e) html))"
  shows "settled (resume e net p s) p = Some (Inr (Detail (Some (nextAddr s))))"
    and "coordCache (resume e net p s) camId = Some (nextAddr s)"
    and "heap (resume e net p s) (nextAddr s) =
           Some (cameraData camId (parseCameraDetailHTML (parseFromString e) html))"
    and "cameraCache (resume e net p s) = cameraCache s"
    and "cameraCache s camId = Some ex \<Longrightarrow>
         heap (resume e net p s) ex =
           map_option (enrich (parseCameraDetailHTML (parseFromString e) html)) (heap s ex)"
proof -
  note r = resumeDetail_found [OF assms(2-5)]
  have ne: "ex' \<noteq> nextAddr s" if "cameraCache s camId = Some ex'" for ex'
    using that assms(1) unfolding inv_addr_def by fastforce
  show "settled (resume e net p s) p = Some (Inr (Detail (Some (nextAddr s))))"
    by (simp add: r)
  show "coordCache (resume e net p s) camId = Some (nextAddr s)"
    by (simp add: r)
  show "cameraCache (resume e net p s) = cameraCache s"
    by (simp add: r)
  show "heap (resume e net p s) (nextAddr s) =
           Some (cameraData camId (parseCameraDetailHTML (parseFromString e) html))"
    using ne by (auto simp add: r split: option.splits)
  show "heap (resume e net p s) ex =
           map_option (enrich (parseCameraDetailHTML (parseFromString e) html)) (heap s ex)"
    if "cameraCache s camId = Some ex"
    using that ne [OF that] by (simp add: r)
qed

lemma exec_cameraCache_keeps:
  "cameraCache s i = Some a \<Longrightarrow> cameraCache (exec e ev s) i = Some a"
proof (cases ev)
  case (CallList la lo)
  assume "cameraCache s i = Some a"
  with CallList show ?thesis
    by (cases "pendingRequests s (listKey e la lo)")
       (simp_all add: fetchCamerasByCoordinate_pending fetchCamerasByCoordinate_miss)
next
  case (CallDetail camId)
  assume "cameraCache s i = Some a"
  with CallDetail show ?thesis
    by (cases "coordCache s camId"; cases "pendingRequests s (detailKey camId)")
       (simp_all add: fetchCameraDetail_hit fetchCameraDetail_pending fetchCameraDetail_miss)
next
  case (Resume p net)
  assume "cameraCache s i = Some a"
  with Resume show ?thesis by (simp add: resume_cameraCache_keeps)
qed simp_all

subsection \<open>The list parser and the snapshot URL\<close>

declare digitsOf.simps [simp del]

lemma length_cam: "length (js ''/cam/'') = 5"
  by (simp add: js_def)

lemma digit_unat: "n < 10 \<Longrightarrow> unat (of_nat (48 + n) :: 16 word) = 48 + n"
  using unat_of_nat [of "48 + n", where ?'a = 16] by (simp del: of_nat_add)

lemma matchCamId_Some:
  "matchCamId h = Some i \<Longrightarrow>
   \<exists>pre. h = pre @ js ''/cam/'' @ i \<and> i \<noteq> [] \<and> list_all (\<lambda>x. \<not> isLineTerminator x) i"
proof (induction h)
  case Nil
  then show ?case by simp
next
  case (Cons c cs)
  show ?case
  proof (cases "startsWith (js ''/cam/'') (c # cs) \<and> drop 5 (c # cs) \<noteq> [] \<and>
         list_all (\<lambda>x. \<not> isLineTerminator x) (drop 5 (c # cs))")
    case True
    with Cons.prems have i: "i = drop 5 (c # cs)" by simp
    from True have "take 5 (c # cs) = js ''/cam/''"
      unfolding startsWith_def length_cam by blast
    then have "c # cs = [] @ js ''/cam/'' @ i"
      using append_take_drop_id [of 5 "c # cs"] i by simp
    with True i show ?thesis by blast
  next
    case False
    with Cons.prems have "matchCamId cs = Some i" by auto
    from Cons.IH [OF this] obtain pre where
      "cs = pre @ js ''/cam/'' @ i \<and> i \<noteq> [] \<and> list_all (\<lambda>x. \<not> isLineTerminator x) i"
      by blast
    then have "c # cs = (c # pre) @ js ''/cam/'' @ i \<and> i \<noteq> [] \<and>
        list_all (\<lambda>x. \<not> isLineTerminator x) i"
      by simp
    then show ?thesis by blast
  qed
qed

lemma parse_as_concat:
  "parseCameraListHTML pf html =
     concat (map (listStep (quirks (pf html)) [])
       (querySelectorAll (pf html) (ByClass (js ''cam-list-container''))))"
  by (simp add: parseCameraListHTML_def Let_def foldl_listStep)

lemma digitsOf_inj:
  assumes "digitsOf m = digitsOf n"
  shows "m = n"
proof -
  have "digitsValue (digitsOf m) = digitsValue (digitsOf n)"
    by (simp only: assms)
  then show ?thesis by (simp only: digitsValue_digitsOf)
qed

lemma digitsOf_head: "digitsOf n \<noteq> [] \<and> hd (digitsOf n) \<noteq> 0x2D"
proof (induction n rule: digitsOf.induct)
  case (1 n)
  show ?case
  proof (cases "n < 10")
    case True
    have u: "unat (of_nat (48 + n) :: 16 word) = 48 + n"
      using True by (rule digit_unat)
    have "(of_nat (48 + n) :: 16 word) \<noteq> 0x2D"
    proof
      assume a: "(of_nat (48 + n) :: 16 word) = 0x2D"
      have "unat (of_nat (48 + n) :: 16 word) = 45" unfolding a by simp
      with u show False by simp
    qed
    have d: "digitsOf n = [of_nat (48 + n)]"
      using True by (subst digitsOf.simps) simp
    show ?thesis unfolding d using \<open>(of_nat (48 + n) :: 16 word) \<noteq> 0x2D\<close>
      by (simp del: of_nat_add)
  next
    case False
    then have d: "digitsOf n = digitsOf (n div 10) @ [of_nat (48 + n mod 10)]"
      by (subst digitsOf.simps) simp
    from False 1 have "digitsOf (n div 10) \<noteq> [] \<and> hd (digitsOf (n div 10)) \<noteq> 0x2D"
      by simp
    then show ?thesis unfolding d by simp
  qed
qed

lemma showInt_inj: "showInt i = showInt j \<longleftrightarrow> i = j"
proof
  assume e: "showInt i = showInt j"
  have hd_neg: "hd (showInt k) = 0x2D" if "k < 0" for k
    using that by (simp add: showInt_def)
  have hd_pos: "hd (showInt k) \<noteq> 0x2D" if "\<not> k < 0" for k
    using that digitsOf_head [of "nat k"] by (simp add: showInt_def)
  show "i = j"
  proof (cases "i < 0")
    case True
    with e hd_neg [of i] hd_pos [of j] have j: "j < 0" by auto
    with True e have "digitsOf (nat (- i)) = digitsOf (nat (- j))"
      by (simp add: showInt_def)
    then have "nat (- i) = nat (- j)" by (rule digitsOf_inj)
    with True j show ?thesis by simp
  next
    case False
    with e hd_neg [of j] hd_pos [of i] have j: "\<not> j < 0" by auto
    with False e have "digitsOf (nat i) = digitsOf (nat j)"
      by (simp add: showInt_def)
    then have "nat i = nat j" by (rule digitsOf_inj)
    with False j show ?thesis by simp
  qed
qed simp

subsection \<open>The concrete pages and runs\<close>

lemma parse_docList:
  "parseCameraListHTML pageOf (js ''list'') = [summaryA1, summaryB2]"
  by (simp add: parseCameraListHTML_def listStep_def pageOf_def docList_def containerA1_def
      containerB2_def containerNoImg_def containerOther_def summaryA1_def summaryB2_def
      string_eval dom_eval)

lemma envOf_simps:
  "parseFromString (envOf pf) = pf" "encodeURIComponent (envOf pf) = Some"
  "toFixed4 (envOf pf) = fixedOf" "numberToString (envOf pf) = fixedOf"
  by (simp_all add: envOf_def)

lemma fetch_okBody: "fetchWithProxy (envOf pf) (okBody body) url = Inr body"
  by (simp add: fetchWithProxy_def envOf_def okBody_def)

lemma fetch_offline: "fetchWithProxy (envOf pf) offline url = Inl NetworkError"
  by (simp add: fetchWithProxy_def envOf_def offline_def)

lemma stateListed_eq:
  "stateListed =
     \<lparr> heap = [0 \<mapsto> summaryA1, 1 \<mapsto> summaryB2], nextAddr = 2,
       cameraCache = [js ''A1'' \<mapsto> 0, js ''B2'' \<mapsto> 1],
       coordCache = Map.empty, pendingRequests = Map.empty, tasks = Map.empty,
       settled = [0 \<mapsto> Inr (Cameras [0, 1])], nextPromise = 1,
       fetchLog = [listUrl (envOf pageOf) (Fin 0) (Fin 0)] \<rparr>"
  apply (simp add: stateListed_def fetchCamerasByCoordinate_def initial_def resume_def
      resumeList_def fetch_okBody Let_def finish_def listUrl_def)
  apply (simp add: envOf_def parse_docList mergeCameras_def mergeStep_def summaryA1_def
      summaryB2_def upt_rec)
  apply (auto simp add: fun_eq_iff js_def)
  done

lemma reachable_stateListed: "reachable (envOf pageOf) stateListed"
  unfolding stateListed_def by (intro reachable_exec reachable_initial)

lemma stateAsked_eq:
  "stateAsked e =
     start (DetailTask (detailUrl (js ''A1'')) (js ''A1'')) (detailUrl (js ''A1'')) initial"
  by (simp add: stateAsked_def fetchCameraDetail_miss initial_def)

lemma reachable_stateAsked: "reachable e (stateAsked e)"
  unfolding stateAsked_def by (intro reachable_exec reachable_initial)

lemmas detail_eval =
  parseCameraDetailHTML_def detailStep_def string_eval dom_eval number_eval toDouble_small

lemma parse_docDetail: "parseCameraDetailHTML (parserOf docDetail) html = parsedDetail"
  by (simp add: docDetail_def parsedDetail_def detail_eval)

lemma parse_docNoLon:
  "parseCameraDetailHTML (parserOf docNoLon) html =
     \<lparr> lat = Some (Fin 1), lon = None, name = [], liveFeedUrl = [] \<rparr>"
  by (simp add: docNoLon_def detail_eval)

lemma parse_docZeroLat:
  "parseCameraDetailHTML (parserOf docZeroLat) html =
     \<lparr> lat = Some (Fin 0), lon = Some (Fin 2), name = [], liveFeedUrl = [] \<rparr>"
  by (simp add: docZeroLat_def detail_eval)

lemma parse_docSouth:
  "parseCameraDetailHTML (parserOf docSouth) html =
     \<lparr> lat = None, lon = Some (Fin 2), name = [], liveFeedUrl = [] \<rparr>"
  by (simp add: docSouth_def detail_eval)

lemma parse_docMixed:
  "parseCameraDetailHTML (parserOf docMixed) html =
     \<lparr> lat = Some (Fin 3), lon = Some (Fin 2), name = [], liveFeedUrl = [] \<rparr>"
  by (simp add: docMixed_def detail_eval)

lemma stateAsked_task:
  "tasks (stateAsked e) 0 = Some (DetailTask (detailUrl (js ''A1'')) (js ''A1''))"
  by (simp add: stateAsked_eq initial_def)

lemma stateResolved_eq:
  "stateResolved =
     finish 0 (detailKey (js ''A1'')) (Inr (Detail (Some 0)))
       ((stateAsked (envOf (parserOf docDetail)))
          \<lparr> heap := [0 \<mapsto> cameraData (js ''A1'') parsedDetail], nextAddr := 1,
             coordCache := [js ''A1'' \<mapsto> 0] \<rparr>)"
  unfolding stateResolved_def exec.simps
  by (subst resumeDetail_found [OF stateAsked_task fetch_okBody])
     (simp_all add: envOf_simps parse_docDetail parsedDetail_def stateAsked_eq initial_def)

lemma reachable_stateResolved: "reachable (envOf (parserOf docDetail)) stateResolved"
  unfolding stateResolved_def by (intro reachable_exec reachable_stateAsked)

lemma parse_pageOf_detail: "parseCameraDetailHTML pageOf (js ''detail'') = parsedDetail"
proof -
  have "pageOf (js ''detail'') = docDetail" by (simp add: pageOf_def js_def)
  then have "parseCameraDetailHTML pageOf (js ''detail'') =
      parseCameraDetailHTML (parserOf docDetail) (js ''detail'')"
    by (simp add: parseCameraDetailHTML_def parserOf_def)
  then show ?thesis by (simp add: parse_docDetail)
qed

lemma stateListedAsked_eq:
  "stateListedAsked =
     start (DetailTask (detailUrl (js ''A1'')) (js ''A1'')) (detailUrl (js ''A1'')) stateListed"
  by (simp add: stateListedAsked_def fetchCameraDetail_miss stateListed_eq)

lemma reachable_stateListedAsked: "reachable (envOf pageOf) stateListedAsked"
  unfolding stateListedAsked_def by (intro reachable_exec reachable_stateListed)

lemma stateListedAsked_facts:
  "tasks stateListedAsked (Suc 0) = Some (DetailTask (detailUrl (js ''A1'')) (js ''A1''))"
  "cameraCache stateListedAsked (js ''A1'') = Some 0"
  "cameraCache stateListedAsked (js ''B2'') = Some (Suc 0)"
  "heap stateListedAsked 0 = Some summaryA1"
  "nextAddr stateListedAsked = 2"
  by (simp_all add: stateListedAsked_eq stateListed_eq js_def)

lemma truthy_parsedDetail: "truthy (lat parsedDetail)" "truthy (lon parsedDetail)"
  by (simp_all add: parsedDetail_def)

lemma parsedDetail_fields:
  "lat parsedDetail = Some (Fin 1)" "lon parsedDetail = Some (Fin 2)"
  "name parsedDetail = js ''New''" "liveFeedUrl parsedDetail = js ''live-a1''"
  "js ''New'' \<noteq> []" "js ''live-a1'' \<noteq> []"
  by (simp_all add: parsedDetail_def js_def)

lemma summaryA1_fields:
  "name summaryA1 = js ''Old''" "liveFeedUrl summaryA1 = js ''old-live''"
  "idCam summaryA1 = js ''A1''" "snapshotUrl summaryA1 = js ''s1.jpg''"
  by (simp_all add: summaryA1_def)

lemma containerB2_parts:
  "querySelectorIn False containerB2 (ByTag (js ''a'')) =
     Some (Element (js ''a'') [(js ''href'', js ''https://www.twipcam.com/cam/B2'')]
             [Element (js ''img'') [] []])"
  "querySelectorIn False containerB2 (ByTag (js ''img'')) = Some (Element (js ''img'') [] [])"
  "querySelectorIn False containerB2 (ByClass (js ''w3-display-bottomright'')) = None"
  "matchCamId (orElse (getAttribute
      (Element (js ''a'') [(js ''href'', js ''https://www.twipcam.com/cam/B2'')]
             [Element (js ''img'') [] []]) (js ''href'')) []) = Some (js ''B2'')"
  "querySelectorIn False containerNoImg (ByTag (js ''img'')) = None"
  "getAttribute (Element (js ''img'') [] []) (js ''src'') = None"
  "getAttribute (Element (js ''img'') [] []) (js ''data-src'') = None"
  by (simp_all add: containerB2_def containerNoImg_def string_eval dom_eval)

section \<open>The claims\<close>

subsection \<open>C1: one request in flight for each key\<close>

text \<open>
  C1: in every reachable state, no two suspended requests have the same key, and the
  pending table holds exactly the keys of the suspended requests.  A call that finds
  its key free (and, for a detail call, the camera not cached) calls
  \<open>fetchWithProxy\<close> once and registers its promise under the key.  A call made
  while a request for its key is in flight gets the promise of that request and leaves
  the state, and so the fetch log, as it is: all callers follow one promise.  Any other
  event than the resumption of that request leaves it in flight.  Its resumption,
  whatever the network answered, removes the key from the pending table, settles the
  promise and fetches nothing; a settled promise keeps its outcome, so all callers
  see the same one.
\<close>

theorem C1_coalescing:
  assumes "reachable e s"
  shows
    "(tasks s p = Some t \<and> tasks s q = Some u \<and> taskKey t = taskKey u \<longrightarrow> p = q) \<and>
     (pendingRequests s k = Some p \<longleftrightarrow> (\<exists>t. tasks s p = Some t \<and> taskKey t = k)) \<and>
     (pendingRequests s (listKey e la lo) = None \<longrightarrow>
        fst (fetchCamerasByCoordinate e la lo s) = Follows (nextPromise s) \<and>
        fetchLog (snd (fetchCamerasByCoordinate e la lo s)) = fetchLog s @ [listUrl e la lo] \<and>
        pendingRequests (snd (fetchCamerasByCoordinate e la lo s)) (listKey e la lo) =
          Some (nextPromise s)) \<and>
     (coordCache s camId = None \<and> pendingRequests s (detailKey camId) = None \<longrightarrow>
        fst (fetchCameraDetail e camId s) = Follows (nextPromise s) \<and>
        fetchLog (snd (fetchCameraDetail e camId s)) = fetchLog s @ [detailUrl camId] \<and>
        pendingRequests (snd (fetchCameraDetail e camId s)) (detailKey camId) =
          Some (nextPromise s)) \<and>
     (tasks s p = Some t \<and> taskKey t = listKey e la lo \<longrightarrow>
        fetchCamerasByCoordinate e la lo s = (Follows p, s)) \<and>
     (tasks s p = Some (DetailTask url camId) \<longrightarrow>
        fetchCameraDetail e camId s = (Follows p, s)) \<and>
     (tasks s p = Some t \<and> \<not> resumes p ev \<longrightarrow> tasks (exec e ev s) p = Some t) \<and>
     (tasks s p = Some t \<longrightarrow>
        pendingRequests (resume e net p s) (taskKey t) = None \<and>
        tasks (resume e net p s) p = None \<and>
        settled (resume e net p s) p \<noteq> None \<and>
        fetchLog (resume e net p s) = fetchLog s) \<and>
     (settled s p = Some out \<longrightarrow> settled (exec e ev s) p = Some out)"
proof -
  from assms have i: "inv_pending s" "inv_detail s" by (simp_all add: reachable_inv)
  show ?thesis
  proof (intro conjI impI)
    show "p = q" if "tasks s p = Some t \<and> tasks s q = Some u \<and> taskKey t = taskKey u"
      using that no_two_in_flight [OF i(1), of p t q u] by simp
    show "pendingRequests s k = Some p \<longleftrightarrow> (\<exists>t. tasks s p = Some t \<and> taskKey t = k)"
      by (rule pending_iff_task [OF i(1)])
    show "fetchCamerasByCoordinate e la lo s = (Follows p, s)"
      if "tasks s p = Some t \<and> taskKey t = listKey e la lo"
      using that list_call_in_flight [OF i(1), of p t e la lo] by simp
    show "fetchCameraDetail e camId s = (Follows p, s)"
      if "tasks s p = Some (DetailTask url camId)"
      using that by (rule detail_call_in_flight [OF i])
    show "tasks (exec e ev s) p = Some t" if "tasks s p = Some t \<and> \<not> resumes p ev"
      using that exec_keeps_task [OF i(1), of p t ev e] by simp
    show "settled (exec e ev s) p = Some out" if "settled s p = Some out"
      using that by (rule exec_keeps_settled [OF i(1)])
  qed (simp_all add: fetchCamerasByCoordinate_miss fetchCameraDetail_miss resume_completes)
qed

text \<open>
  The theorem at work: with one detail request for \<^verbatim>\<open>A1\<close> in flight, a second call
  follows promise 0 and changes nothing; when the network fails, the resumption still
  frees the key, and one fetch has been made in all.
\<close>

theorem C1_coalescing_witness:
  "reachable (envOf (parserOf docDetail)) (stateAsked (envOf (parserOf docDetail))) \<and>
   tasks (stateAsked (envOf (parserOf docDetail))) 0 =
     Some (DetailTask (detailUrl (js ''A1'')) (js ''A1'')) \<and>
   fetchCameraDetail (envOf (parserOf docDetail)) (js ''A1'')
       (stateAsked (envOf (parserOf docDetail))) =
     (Follows 0, stateAsked (envOf (parserOf docDetail))) \<and>
   pendingRequests (resume (envOf (parserOf docDetail)) offline 0
       (stateAsked (envOf (parserOf docDetail)))) (detailKey (js ''A1'')) = None \<and>
   fetchLog (resume (envOf (parserOf docDetail)) offline 0
       (stateAsked (envOf (parserOf docDetail)))) = [detailUrl (js ''A1'')]"
  using C1_coalescing [OF reachable_stateAsked,
      where e = "envOf (parserOf docDetail)" and p = 0
        and t = "DetailTask (detailUrl (js ''A1'')) (js ''A1'')"
        and url = "detailUrl (js ''A1'')" and camId = "js ''A1''" and net = offline]
    reachable_stateAsked [of "envOf (parserOf docDetail)"]
  by (simp add: stateAsked_eq initial_def)

subsection \<open>C2: resolving a detail page\<close>

text \<open>
  C2, as stated: when both parsed coordinates are non-null numbers, \<open>fetchCameraDetail\<close>
  builds the record, caches it and returns it.  On a page with latitude 0 and
  longitude 2 both coordinates are non-null numbers, yet the call resolves to
  \<^verbatim>\<open>null\<close> and caches nothing: the test \<^verbatim>\<open>detail.lat && detail.lon\<close> takes 0 for absent.
\<close>

theorem C2_counterexample:
  "lat (parseCameraDetailHTML (parserOf docZeroLat) []) = Some (Fin 0) \<and>
   lon (parseCameraDetailHTML (parserOf docZeroLat) []) = Some (Fin 2) \<and>
   settled (resume (envOf (parserOf docZeroLat)) (okBody []) 0
       (stateAsked (envOf (parserOf docZeroLat)))) 0 = Some (Inr (Detail None)) \<and>
   coordCache (resume (envOf (parserOf docZeroLat)) (okBody []) 0
       (stateAsked (envOf (parserOf docZeroLat)))) (js ''A1'') = None"
proof -
  have "resume (envOf (parserOf docZeroLat)) (okBody []) 0
          (stateAsked (envOf (parserOf docZeroLat))) =
        finish 0 (detailKey (js ''A1'')) (Inr (Detail None))
          (stateAsked (envOf (parserOf docZeroLat)))"
    by (rule resumeDetail_null [OF stateAsked_task fetch_okBody])
       (simp add: envOf_simps parse_docZeroLat)
  then show ?thesis
    by (simp add: parse_docZeroLat stateAsked_eq initial_def)
qed

text \<open>
  C2, amended: when the resumed detail request has fetched a page whose two parsed
  coordinates are both truthy (not \<^verbatim>\<open>null\<close>, not zero, not NaN), it allocates
  the object \<open>cameraData\<close>, stores it in the detail cache under the id and resolves
  its promise with it; when either coordinate is \<^verbatim>\<open>null\<close>, it resolves with \<^verbatim>\<open>null\<close>
  (no error) and leaves both caches and every object as they are.
\<close>

theorem C2_detail_resolution:
  assumes "reachable e s" and "tasks s p = Some (DetailTask url camId)"
    and "fetchWithProxy e net url = Inr html"
  shows
    "(truthy (lat (parseCameraDetailHTML (parseFromString e) html)) \<and>
      truthy (lon (parseCameraDetailHTML (parseFromString e) html)) \<longrightarrow>
        settled (resume e net p s) p = Some (Inr (Detail (Some (nextAddr s)))) \<and>
        coordCache (resume e net p s) camId = Some (nextAddr s) \<and>
        heap (resume e net p s) (nextAddr s) =
          Some (cameraData camId (parseCameraDetailHTML (parseFromString e) html))) \<and>
     (lat (parseCameraDetailHTML (parseFromString e) html) = None \<or>
      lon (parseCameraDetailHTML (parseFromString e) html) = None \<longrightarrow>
        settled (resume e net p s) p = Some (Inr (Detail None)) \<and>
        coordCache (resume e net p s) = coordCache s \<and>
        cameraCache (resume e net p s) = cameraCache s \<and>
        heap (resume e net p s) = heap s)"
proof (intro conjI impI)
  assume t: "truthy (lat (parseCameraDetailHTML (parseFromString e) html)) \<and>
      truthy (lon (parseCameraDetailHTML (parseFromString e) html))"
  from assms(1) have i: "inv_addr s" by (simp add: reachable_inv)
  from t show "settled (resume e net p s) p = Some (Inr (Detail (Some (nextAddr s))))"
    by (simp add: resumeDetail_success [OF i assms(2,3)])
  from t show "coordCache (resume e net p s) camId = Some (nextAddr s)"
    by (simp add: resumeDetail_success [OF i assms(2,3)])
  from t show "heap (resume e net p s) (nextAddr s) =
          Some (cameraData camId (parseCameraDetailHTML (parseFromString e) html))"
    by (simp add: resumeDetail_success [OF i assms(2,3)])
next
  assume "lat (parseCameraDetailHTML (parseFromString e) html) = None \<or>
      lon (parseCameraDetailHTML (parseFromString e) html) = None"
  then have "\<not> (truthy (lat (parseCameraDetailHTML (parseFromString e) html)) \<and>
      truthy (lon (parseCameraDetailHTML (parseFromString e) html)))"
    by auto
  note r = resumeDetail_null [OF assms(2,3) this]
  show "settled (resume e net p s) p = Some (Inr (Detail None))" by (simp add: r)
  show "coordCache (resume e net p s) = coordCache s" by (simp add: r)
  show "cameraCache (resume e net p s) = cameraCache s" by (simp add: r)
  show "heap (resume e net p s) = heap s" by (simp add: r)
qed

text \<open>
  The theorem at work: the page with latitude 1 and longitude 2 puts \<^verbatim>\<open>A1\<close> into the
  detail cache at object 0; the page without longitude resolves to \<^verbatim>\<open>null\<close> and
  leaves the detail cache as it is.
\<close>

theorem C2_detail_resolution_witness:
  "reachable (envOf (parserOf docDetail)) (stateAsked (envOf (parserOf docDetail))) \<and>
   tasks (stateAsked (envOf (parserOf docDetail))) 0 =
     Some (DetailTask (detailUrl (js ''A1'')) (js ''A1'')) \<and>
   fetchWithProxy (envOf (parserOf docDetail)) (okBody []) (detailUrl (js ''A1'')) = Inr [] \<and>
   truthy (lat (parseCameraDetailHTML (parserOf docDetail) [])) \<and>
   truthy (lon (parseCameraDetailHTML (parserOf docDetail) [])) \<and>
   settled (resume (envOf (parserOf docDetail)) (okBody []) 0
       (stateAsked (envOf (parserOf docDetail)))) 0 = Some (Inr (Detail (Some 0))) \<and>
   coordCache (resume (envOf (parserOf docDetail)) (okBody []) 0
       (stateAsked (envOf (parserOf docDetail)))) (js ''A1'') = Some 0 \<and>
   heap (resume (envOf (parserOf docDetail)) (okBody []) 0
       (stateAsked (envOf (parserOf docDetail)))) 0 =
     Some (cameraData (js ''A1'') parsedDetail) \<and>
   lon (parseCameraDetailHTML (parserOf docNoLon) []) = None \<and>
   settled (resume (envOf (parserOf docNoLon)) (okBody []) 0
       (stateAsked (envOf (parserOf docNoLon)))) 0 = Some (Inr (Detail None)) \<and>
   coordCache (resume (envOf (parserOf docNoLon)) (okBody []) 0
       (stateAsked (envOf (parserOf docNoLon)))) = coordCache (stateAsked (envOf (parserOf docNoLon)))"
  using C2_detail_resolution [OF reachable_stateAsked stateAsked_task fetch_okBody,
      of "parserOf docDetail" "[]"]
    C2_detail_resolution [OF reachable_stateAsked stateAsked_task fetch_okBody,
      of "parserOf docNoLon" "[]"]
    reachable_stateAsked [of "envOf (parserOf docDetail)"]
  by (simp add: envOf_simps parse_docDetail parse_docNoLon truthy_parsedDetail
      stateAsked_task fetch_okBody)
     (simp add: stateAsked_eq initial_def)

subsection \<open>C3: which container gives the coordinate\<close>

text \<open>
  C3, as stated: when several containers carry the latitude label (or the longitude
  label), \<open>parseCameraDetailHTML\<close> returns the value of the first one in document order.
  On a page with the latitudes 1 and 2, in this order, the first match is 1 and the
  parser returns 2.
\<close>

theorem C3_first_match_counterexample:
  "firstMatch LAT_LABEL (querySelectorAll docTwoLat (ByTag (js ''div''))) = Some (Fin 1) \<and>
   lat (parseCameraDetailHTML (parserOf docTwoLat) []) = Some (Fin 2)"
  by (simp add: parseCameraDetailHTML_def detailStep_def firstMatch_def coordValue_def
      List.map_filter_def docTwoLat_def string_eval dom_eval number_eval toDouble_small)

text \<open>
  C3, amended: \<open>parseCameraDetailHTML\<close> returns as \<open>lat\<close> (respectively \<open>lon\<close>) the
  value parsed from the last container, in document order, whose trimmed text matches
  the latitude (longitude) pattern, and \<^verbatim>\<open>null\<close> when none matches: every match
  overwrites the one before.
\<close>

theorem C3_last_match_wins:
  "lat (parseCameraDetailHTML pf html) =
     lastMatch LAT_LABEL (querySelectorAll (pf html) (ByTag (js ''div''))) \<and>
   lon (parseCameraDetailHTML pf html) =
     lastMatch LON_LABEL (querySelectorAll (pf html) (ByTag (js ''div'')))"
  by (simp add: parseCameraDetailHTML_def Let_def foldl_detailStep split: option.splits)

subsection \<open>C4: enriching the summary\<close>

text \<open>
  C4, as stated: a non-empty \<open>liveFeedUrl\<close> or \<open>name\<close> of the summary entry is left
  unchanged by a detail resolution.  The summary of \<^verbatim>\<open>A1\<close> has the name \<^verbatim>\<open>Old\<close> and the
  feed \<^verbatim>\<open>old-live\<close>; after the detail page is resolved it has the name \<^verbatim>\<open>New\<close> and the
  feed \<^verbatim>\<open>live-a1\<close>.
\<close>

theorem C4_counterexample:
  "map_option name (heap stateListedAsked 0) = Some (js ''Old'') \<and>
   map_option liveFeedUrl (heap stateListedAsked 0) = Some (js ''old-live'') \<and>
   cameraCache stateListedAsked (js ''A1'') = Some 0 \<and>
   map_option name
     (heap (exec (envOf pageOf) (Resume 1 (okBody (js ''detail''))) stateListedAsked) 0) =
     Some (js ''New'') \<and>
   map_option liveFeedUrl
     (heap (exec (envOf pageOf) (Resume 1 (okBody (js ''detail''))) stateListedAsked) 0) =
     Some (js ''live-a1'')"
proof -
  have i: "inv_addr stateListedAsked"
    using reachable_inv [OF reachable_stateListedAsked] by simp
  have "heap (resume (envOf pageOf) (okBody (js ''detail'')) (Suc 0) stateListedAsked) 0 =
      map_option (enrich parsedDetail) (heap stateListedAsked 0)"
    using resumeDetail_success(5) [OF i stateListedAsked_facts(1) fetch_okBody, of pageOf "js ''detail''" 0]
    by (simp add: envOf_simps parse_pageOf_detail truthy_parsedDetail stateListedAsked_facts)
  then show ?thesis
    by (simp add: stateListedAsked_facts enrich_def parsedDetail_fields summaryA1_fields)
qed

text \<open>
  C4, amended: when a detail resolution succeeds for an id present in the summary cache,
  the summary object is updated in place: its \<open>liveFeedUrl\<close> and its \<open>name\<close> are
  overwritten with the value of the detail page whenever that value is not empty,
  whatever they were before, and kept when the value of the detail page is empty; its
  \<open>lat\<close> and \<open>lon\<close> are set; its \<open>id\<close> and \<open>snapshotUrl\<close> stay.  The summary cache
  itself is not changed by the resolution, and no event ever removes or replaces an
  entry of it.
\<close>

theorem C4_enrichment:
  assumes "reachable e s"
  shows
    "(tasks s p = Some (DetailTask url camId) \<and> fetchWithProxy e net url = Inr html \<and>
      truthy (lat (parseCameraDetailHTML (parseFromString e) html)) \<and>
      truthy (lon (parseCameraDetailHTML (parseFromString e) html)) \<and>
      cameraCache s camId = Some ex \<and> heap s ex = Some old \<longrightarrow>
        (\<exists>new. heap (resume e net p s) ex = Some new \<and>
           liveFeedUrl new =
             (if liveFeedUrl (parseCameraDetailHTML (parseFromString e) html) = []
              then liveFeedUrl old
              else liveFeedUrl (parseCameraDetailHTML (parseFromString e) html)) \<and>
           name new =
             (if name (parseCameraDetailHTML (parseFromString e) html) = []
              then name old
              else name (parseCameraDetailHTML (parseFromString e) html)) \<and>
           lat new = lat (parseCameraDetailHTML (parseFromString e) html) \<and>
           lon new = lon (parseCameraDetailHTML (parseFromString e) html) \<and>
           idCam new = idCam old \<and> snapshotUrl new = snapshotUrl old) \<and>
        cameraCache (resume e net p s) = cameraCache s) \<and>
     (cameraCache s i = Some a \<longrightarrow> cameraCache (exec e ev s) i = Some a)"
proof (intro conjI impI)
  assume h: "tasks s p = Some (DetailTask url camId) \<and> fetchWithProxy e net url = Inr html \<and>
      truthy (lat (parseCameraDetailHTML (parseFromString e) html)) \<and>
      truthy (lon (parseCameraDetailHTML (parseFromString e) html)) \<and>
      cameraCache s camId = Some ex \<and> heap s ex = Some old"
  from assms have i: "inv_addr s" by (simp add: reachable_inv)
  note r = resumeDetail_success [OF i, of p url camId e net html]
  from h have "heap (resume e net p s) ex =
      Some (enrich (parseCameraDetailHTML (parseFromString e) html) old)"
    using r(5) [of ex] by simp
  then show "\<exists>new. heap (resume e net p s) ex = Some new \<and>
           liveFeedUrl new =
             (if liveFeedUrl (parseCameraDetailHTML (parseFromString e) html) = []
              then liveFeedUrl old
              else liveFeedUrl (parseCameraDetailHTML (parseFromString e) html)) \<and>
           name new =
             (if name (parseCameraDetailHTML (parseFromString e) html) = []
              then name old
              else name (parseCameraDetailHTML (parseFromString e) html)) \<and>
           lat new = lat (parseCameraDetailHTML (parseFromString e) html) \<and>
           lon new = lon (parseCameraDetailHTML (parseFromString e) html) \<and>
           idCam new = idCam old \<and> snapshotUrl new = snapshotUrl old"
    by (simp add: enrich_def)
  from h show "cameraCache (resume e net p s) = cameraCache s"
    using r(4) by simp
next
  assume "cameraCache s i = Some a"
  then show "cameraCache (exec e ev s) i = Some a" by (rule exec_cameraCache_keeps)
qed

text \<open>
  The theorem at work: the run of the counterexample, where the summary of \<^verbatim>\<open>A1\<close> takes
  the name and feed of the detail page and \<^verbatim>\<open>B2\<close> stays in the summary cache.
\<close>

theorem C4_enrichment_witness:
  "reachable (envOf pageOf) stateListedAsked \<and>
   tasks stateListedAsked 1 = Some (DetailTask (detailUrl (js ''A1'')) (js ''A1'')) \<and>
   fetchWithProxy (envOf pageOf) (okBody (js ''detail'')) (detailUrl (js ''A1'')) =
     Inr (js ''detail'') \<and>
   truthy (lat (parseCameraDetailHTML pageOf (js ''detail''))) \<and>
   truthy (lon (parseCameraDetailHTML pageOf (js ''detail''))) \<and>
   cameraCache stateListedAsked (js ''A1'') = Some 0 \<and>
   heap stateListedAsked 0 = Some summaryA1 \<and>
   (\<exists>new. heap (resume (envOf pageOf) (okBody (js ''detail'')) 1 stateListedAsked) 0 =
        Some new \<and>
      liveFeedUrl new = js ''live-a1'' \<and> name new = js ''New'' \<and>
      lat new = Some (Fin 1) \<and> lon new = Some (Fin 2) \<and>
      idCam new = js ''A1'' \<and> snapshotUrl new = js ''s1.jpg'') \<and>
   cameraCache stateListedAsked (js ''B2'') = Some 1 \<and>
   cameraCache (exec (envOf pageOf) (Resume 1 (okBody (js ''detail''))) stateListedAsked)
     (js ''B2'') = Some 1"
  using C4_enrichment [OF reachable_stateListedAsked, where p = 1
      and url = "detailUrl (js ''A1'')" and camId = "js ''A1''"
      and net = "okBody (js ''detail'')" and html = "js ''detail''" and ex = 0
      and old = summaryA1 and i = "js ''B2''" and a = 1
      and ev = "Resume 1 (okBody (js ''detail''))"]
    reachable_stateListedAsked
  by (simp add: stateListedAsked_facts fetch_okBody envOf_simps parse_pageOf_detail
      truthy_parsedDetail parsedDetail_fields summaryA1_fields)

subsection \<open>C5: merging summaries\<close>

text \<open>
  C5: the merge of a parsed list into the summary cache never overwrites an entry that is
  already there, and merging the same list a second time changes nothing.  The list
  operation merges in this way, and leaves the objects allocated before it as they are,
  so the first-seen name and URLs stay.
\<close>

theorem C5_merge_first_wins_idempotent:
  "(cache k = Some a \<longrightarrow> mergeCameras cache cams k = Some a) \<and>
   mergeCameras (mergeCameras cache cams) cams = mergeCameras cache cams \<and>
   (fetchWithProxy e net url = Inr html \<longrightarrow>
      cameraCache (resumeList e net p url key s) =
        mergeCameras (cameraCache s)
          (zip [nextAddr s ..< nextAddr s + length (parseCameraListHTML (parseFromString e) html)]
               (parseCameraListHTML (parseFromString e) html))) \<and>
   (b < nextAddr s \<longrightarrow> heap (resumeList e net p url key s) b = heap s b)"
proof (intro conjI impI)
  assume "cache k = Some a"
  then show "mergeCameras cache cams k = Some a" by (rule mergeCameras_keeps)
next
  show "mergeCameras (mergeCameras cache cams) cams = mergeCameras cache cams"
    by (rule mergeCameras_idem)
next
  assume "fetchWithProxy e net url = Inr html"
  then show "cameraCache (resumeList e net p url key s) =
        mergeCameras (cameraCache s)
          (zip [nextAddr s ..< nextAddr s + length (parseCameraListHTML (parseFromString e) html)]
               (parseCameraListHTML (parseFromString e) html))"
    by (simp add: resumeList_def Let_def)
next
  assume "b < nextAddr s"
  then show "heap (resumeList e net p url key s) b = heap s b"
    by (simp add: resumeList_def Let_def allocAll_below split: sum.splits)
qed

text \<open>
  The theorem at work: \<^verbatim>\<open>A1\<close> stays at object 0 when a list with another \<^verbatim>\<open>A1\<close> is
  merged, also through the list operation, which leaves object 0 as it is.
\<close>

theorem C5_merge_witness:
  "[js ''A1'' \<mapsto> 0] (js ''A1'') = Some (0::nat) \<and>
   mergeCameras [js ''A1'' \<mapsto> 0] [(5, summaryA1), (6, summaryB2)] (js ''A1'') = Some 0 \<and>
   fetchWithProxy (envOf pageOf) (okBody (js ''list'')) [] = Inr (js ''list'') \<and>
   (0::nat) < nextAddr stateListed \<and>
   cameraCache (resumeList (envOf pageOf) (okBody (js ''list'')) 7 [] [] stateListed) =
     mergeCameras (cameraCache stateListed) [(2, summaryA1), (3, summaryB2)] \<and>
   heap (resumeList (envOf pageOf) (okBody (js ''list'')) 7 [] [] stateListed) 0 =
     heap stateListed 0"
  using C5_merge_first_wins_idempotent [where cache = "[js ''A1'' \<mapsto> 0]" and k = "js ''A1''"
      and a = 0 and cams = "[(5, summaryA1), (6, summaryB2)]" and e = "envOf pageOf"
      and net = "okBody (js ''list'')" and url = "[]" and html = "js ''list''"
      and s = stateListed and b = 0 and p = 7 and key = "[]"]
  by (simp add: fetch_okBody stateListed_eq envOf_simps parse_docList upt_rec)

subsection \<open>C6: the detail cache is stable\<close>

text \<open>
  C6: once an id is in the detail cache of a reachable state, then after any further
  run of the module (calls of the four operations and resumptions, in any order) the
  cache holds the same object under that id and the object is unchanged, so its \<open>lat\<close>
  and \<open>lon\<close> are what they were; \<open>getCachedCamera\<close> answers with that object, and a
  further \<open>fetchCameraDetail\<close> for the id answers with it and leaves the whole state
  as it is.
\<close>

theorem C6_detail_cache_stable:
  assumes "reachable e s" and "coordCache s i = Some a"
  shows "coordCache (run e evs s) i = Some a \<and>
         heap (run e evs s) a = heap s a \<and>
         getCachedCamera (run e evs s) i = Some a \<and>
         fetchCameraDetail e i (run e evs s) = (Resolved (Detail (Some a)), run e evs s)"
  using run_detail_cache_keeps [OF assms, of evs]
  by (simp add: fetchCameraDetail_hit getCachedCamera_def)

text \<open>
  The theorem at work: \<^verbatim>\<open>A1\<close> is resolved at object 0; after another detail call, a
  list call and its failed resumption, the cache and the object are as before.
\<close>

theorem C6_witness:
  "reachable (envOf (parserOf docDetail)) stateResolved \<and>
   coordCache stateResolved (js ''A1'') = Some 0 \<and>
   coordCache (run (envOf (parserOf docDetail))
       [CallDetail (js ''A1''), CallList (Fin 0) (Fin 0), Resume 1 offline] stateResolved)
     (js ''A1'') = Some 0 \<and>
   heap (run (envOf (parserOf docDetail))
       [CallDetail (js ''A1''), CallList (Fin 0) (Fin 0), Resume 1 offline] stateResolved) 0 =
     Some (cameraData (js ''A1'') parsedDetail)"
  using C6_detail_cache_stable [OF reachable_stateResolved, where i = "js ''A1''" and a = 0
      and evs = "[CallDetail (js ''A1''), CallList (Fin 0) (Fin 0), Resume 1 offline]"]
    reachable_stateResolved
  by (simp add: stateResolved_eq)

subsection \<open>C7: two calls in sequence\<close>

text \<open>
  C7, as stated: for every camera id, two calls of \<open>fetchCameraDetail\<close> in sequence
  trigger exactly one fetch.  On a page without longitude the first call resolves to
  \<^verbatim>\<open>null\<close>, nothing is cached, and the second call fetches again.
\<close>

theorem C7_counterexample:
  "settled (run (envOf (parserOf docNoLon)) [CallDetail (js ''A1''), Resume 0 (okBody [])]
       initial) 0 = Some (Inr (Detail None)) \<and>
   fetchLog (run (envOf (parserOf docNoLon))
       [CallDetail (js ''A1''), Resume 0 (okBody []), CallDetail (js ''A1'')] initial) =
     [detailUrl (js ''A1''), detailUrl (js ''A1'')]"
proof -
  let ?e = "envOf (parserOf docNoLon)"
  have 1: "exec ?e (CallDetail (js ''A1'')) initial = stateAsked ?e"
    by (simp add: stateAsked_def)
  have 2: "exec ?e (Resume 0 (okBody [])) (stateAsked ?e) =
      finish 0 (detailKey (js ''A1'')) (Inr (Detail None)) (stateAsked ?e)"
    unfolding exec.simps
    by (rule resumeDetail_null [OF stateAsked_task fetch_okBody])
       (simp add: envOf_simps parse_docNoLon)
  have 3: "run ?e [CallDetail (js ''A1''), Resume 0 (okBody [])] initial =
      finish 0 (detailKey (js ''A1'')) (Inr (Detail None)) (stateAsked ?e)"
    by (simp only: run_def foldl_Cons foldl_Nil 1 2)
  have 4: "run ?e [CallDetail (js ''A1''), Resume 0 (okBody []), CallDetail (js ''A1'')] initial =
      exec ?e (CallDetail (js ''A1''))
        (finish 0 (detailKey (js ''A1'')) (Inr (Detail None)) (stateAsked ?e))"
    by (simp only: run_def foldl_Cons foldl_Nil 1 2)
  show ?thesis
    unfolding 3 4
    by (simp add: stateAsked_eq initial_def fetchCameraDetail_miss)
qed

text \<open>
  C7, amended: for a camera that is neither cached nor being fetched, when the first
  \<open>fetchCameraDetail\<close> resolves to a camera (the page gave both coordinates), a second
  call made after it answers from the detail cache and fetches nothing: one fetch in all.
\<close>

theorem C7_second_call_hits_cache:
  assumes "coordCache s camId = None" and "pendingRequests s (detailKey camId) = None"
    and "settled (resume e net (nextPromise s) (snd (fetchCameraDetail e camId s)))
           (nextPromise s) = Some (Inr (Detail (Some a)))"
  shows "fst (fetchCameraDetail e camId s) = Follows (nextPromise s) \<and>
         fetchCameraDetail e camId
             (resume e net (nextPromise s) (snd (fetchCameraDetail e camId s))) =
           (Resolved (Detail (Some a)),
            resume e net (nextPromise s) (snd (fetchCameraDetail e camId s))) \<and>
         fetchLog (resume e net (nextPromise s) (snd (fetchCameraDetail e camId s))) =
           fetchLog s @ [detailUrl camId]"
proof -
  let ?s1 = "start (DetailTask (detailUrl camId) camId) (detailUrl camId) s"
  have c: "fetchCameraDetail e camId s = (Follows (nextPromise s), ?s1)"
    using assms(1,2) by (rule fetchCameraDetail_miss)
  have t: "tasks ?s1 (nextPromise s) = Some (DetailTask (detailUrl camId) camId)" by simp
  have "coordCache (resume e net (nextPromise s) ?s1) camId = Some a"
    using resume_settled_found [OF t] assms(3) c by simp
  then show ?thesis by (simp add: c fetchCameraDetail_hit resume_fetchLog)
qed

text \<open>
  The theorem at work: from the initial state, on the page with both coordinates, the
  second call for \<^verbatim>\<open>A1\<close> answers with object 0 and the log holds one fetch.
\<close>

theorem C7_witness:
  "coordCache initial (js ''A1'') = None \<and>
   pendingRequests initial (detailKey (js ''A1'')) = None \<and>
   settled stateResolved 0 = Some (Inr (Detail (Some 0))) \<and>
   fetchCameraDetail (envOf (parserOf docDetail)) (js ''A1'') stateResolved =
     (Resolved (Detail (Some 0)), stateResolved) \<and>
   fetchLog stateResolved = [detailUrl (js ''A1'')]"
proof -
  let ?e = "envOf (parserOf docDetail)"
  have n: "nextPromise initial = 0" "fetchLog initial = []"
    and c: "coordCache initial (js ''A1'') = None"
    and q: "pendingRequests initial (detailKey (js ''A1'')) = None"
    by (simp_all add: initial_def)
  have eq: "resume ?e (okBody []) 0 (snd (fetchCameraDetail ?e (js ''A1'') initial)) =
      stateResolved"
    by (simp add: stateResolved_def stateAsked_def)
  have st: "settled stateResolved 0 = Some (Inr (Detail (Some 0)))"
    by (simp add: stateResolved_eq)
  have "settled (resume ?e (okBody []) (nextPromise initial)
          (snd (fetchCameraDetail ?e (js ''A1'') initial))) (nextPromise initial) =
        Some (Inr (Detail (Some 0)))"
    unfolding n eq by (rule st)
  from C7_second_call_hits_cache [OF c q this]
  have "fetchCameraDetail ?e (js ''A1'') stateResolved =
          (Resolved (Detail (Some 0)), stateResolved) \<and>
        fetchLog stateResolved = [detailUrl (js ''A1'')]"
    unfolding n eq by simp
  with c q st show ?thesis by simp
qed

subsection \<open>C8: the list parser\<close>

text \<open>
  C8: \<open>parseCameraListHTML\<close> returns, in document order, what each list container
  gives: nothing for a container without link or without image or whose link has no
  href of the form \<^verbatim>\<open>.../cam/<id>\<close>, and otherwise one summary with that id, whose name
  is the id when there is no caption, whose \<open>snapshotUrl\<close> is the URL built from the id
  when the image has no \<^verbatim>\<open>src\<close>, and whose \<open>liveFeedUrl\<close> is empty when the image has
  no \<^verbatim>\<open>data-src\<close>.
\<close>

theorem C8_list_parser:
  "parseCameraListHTML pf html =
     concat (map (listStep (quirks (pf html)) [])
       (querySelectorAll (pf html) (ByClass (js ''cam-list-container'')))) \<and>
   (querySelectorIn q c (ByTag (js ''a'')) = None \<or>
    querySelectorIn q c (ByTag (js ''img'')) = None \<longrightarrow> listStep q [] c = []) \<and>
   (querySelectorIn q c (ByTag (js ''a'')) = Some link \<and>
    matchCamId (orElse (getAttribute link (js ''href'')) []) = None \<longrightarrow>
      listStep q [] c = []) \<and>
   (querySelectorIn q c (ByTag (js ''a'')) = Some link \<and>
    querySelectorIn q c (ByTag (js ''img'')) = Some img \<and>
    matchCamId (orElse (getAttribute link (js ''href'')) []) = Some camId \<longrightarrow>
      (\<exists>cam pre. listStep q [] c = [cam] \<and> idCam cam = camId \<and>
         getAttribute link (js ''href'') = Some (pre @ js ''/cam/'' @ camId) \<and>
         camId \<noteq> [] \<and>
         (querySelectorIn q c (ByClass (js ''w3-display-bottomright'')) = None \<longrightarrow>
            name cam = camId) \<and>
         (getAttribute img (js ''src'') = None \<longrightarrow>
            snapshotUrl cam = SNAPSHOT_BASE @ camId @ js ''.jpg'') \<and>
         (getAttribute img (js ''data-src'') = None \<longrightarrow> liveFeedUrl cam = [])))"
proof (intro conjI impI)
  show "parseCameraListHTML pf html =
     concat (map (listStep (quirks (pf html)) [])
       (querySelectorAll (pf html) (ByClass (js ''cam-list-container''))))"
    by (rule parse_as_concat)
next
  assume "querySelectorIn q c (ByTag (js ''a'')) = None \<or>
    querySelectorIn q c (ByTag (js ''img'')) = None"
  then show "listStep q [] c = []"
    by (auto simp add: listStep_def split: option.splits)
next
  assume "querySelectorIn q c (ByTag (js ''a'')) = Some link \<and>
    matchCamId (orElse (getAttribute link (js ''href'')) []) = None"
  then show "listStep q [] c = []"
    by (auto simp add: listStep_def split: option.splits)
next
  assume h: "querySelectorIn q c (ByTag (js ''a'')) = Some link \<and>
    querySelectorIn q c (ByTag (js ''img'')) = Some img \<and>
    matchCamId (orElse (getAttribute link (js ''href'')) []) = Some camId"
  then obtain pre where p: "orElse (getAttribute link (js ''href'')) [] = pre @ js ''/cam/'' @ camId"
    and ne: "camId \<noteq> []"
    using matchCamId_Some by blast
  have "getAttribute link (js ''href'') = Some (pre @ js ''/cam/'' @ camId)"
    using p by (auto simp add: orElse_def js_def split: option.splits if_splits)
  with h ne show "\<exists>cam pre. listStep q [] c = [cam] \<and> idCam cam = camId \<and>
         getAttribute link (js ''href'') = Some (pre @ js ''/cam/'' @ camId) \<and>
         camId \<noteq> [] \<and>
         (querySelectorIn q c (ByClass (js ''w3-display-bottomright'')) = None \<longrightarrow>
            name cam = camId) \<and>
         (getAttribute img (js ''src'') = None \<longrightarrow>
            snapshotUrl cam = SNAPSHOT_BASE @ camId @ js ''.jpg'') \<and>
         (getAttribute img (js ''data-src'') = None \<longrightarrow> liveFeedUrl cam = [])"
    by (simp add: listStep_def orElse_def)
qed

text \<open>
  The theorem at work: the list page gives the summaries of \<^verbatim>\<open>A1\<close> and \<^verbatim>\<open>B2\<close>; the
  container without image gives nothing; \<^verbatim>\<open>B2\<close>, without caption, \<^verbatim>\<open>src\<close> and
  \<^verbatim>\<open>data-src\<close>, gets the three defaults.
\<close>

theorem C8_list_parser_witness:
  "parseCameraListHTML pageOf (js ''list'') = [summaryA1, summaryB2] \<and>
   querySelectorIn False containerNoImg (ByTag (js ''img'')) = None \<and>
   listStep False [] containerNoImg = [] \<and>
   querySelectorIn False containerB2 (ByClass (js ''w3-display-bottomright'')) = None \<and>
   getAttribute (Element (js ''img'') [] []) (js ''src'') = None \<and>
   getAttribute (Element (js ''img'') [] []) (js ''data-src'') = None \<and>
   (\<exists>cam. listStep False [] containerB2 = [cam] \<and> idCam cam = js ''B2'' \<and>
      name cam = js ''B2'' \<and> snapshotUrl cam = SNAPSHOT_BASE @ js ''B2'' @ js ''.jpg'' \<and>
      liveFeedUrl cam = [])"
proof -
  note p = containerB2_parts
  have 1: "listStep False [] containerNoImg = []"
    using C8_list_parser [where q = False and c = containerNoImg] p(5) by blast
  have "\<exists>cam pre. listStep False [] containerB2 = [cam] \<and> idCam cam = js ''B2'' \<and>
      getAttribute (Element (js ''a'') [(js ''href'', js ''https://www.twipcam.com/cam/B2'')]
             [Element (js ''img'') [] []]) (js ''href'') =
        Some (pre @ js ''/cam/'' @ js ''B2'') \<and>
      js ''B2'' \<noteq> [] \<and>
      (querySelectorIn False containerB2 (ByClass (js ''w3-display-bottomright'')) = None \<longrightarrow>
         name cam = js ''B2'') \<and>
      (getAttribute (Element (js ''img'') [] []) (js ''src'') = None \<longrightarrow>
         snapshotUrl cam = SNAPSHOT_BASE @ js ''B2'' @ js ''.jpg'') \<and>
      (getAttribute (Element (js ''img'') [] []) (js ''data-src'') = None \<longrightarrow>
         liveFeedUrl cam = [])"
    using C8_list_parser [where q = False and c = containerB2
      and link = "Element (js ''a'') [(js ''href'', js ''https://www.twipcam.com/cam/B2'')]
             [Element (js ''img'') [] []]"
      and img = "Element (js ''img'') [] []" and camId = "js ''B2''"] p(1,2,4)
    by blast
  then have 2: "\<exists>cam. listStep False [] containerB2 = [cam] \<and> idCam cam = js ''B2'' \<and>
      name cam = js ''B2'' \<and> snapshotUrl cam = SNAPSHOT_BASE @ js ''B2'' @ js ''.jpg'' \<and>
      liveFeedUrl cam = []"
    using p(3,6,7) by blast
  show ?thesis using 1 2 p(3,5,6,7) parse_docList by blast
qed

subsection \<open>C9: the snapshot URL\<close>

text \<open>
  C9, as stated: any two calls of \<open>getSnapshotUrl\<close> for an id return URLs with different
  timestamps.  Two calls that read the same millisecond from the clock return the same
  URL.
\<close>

theorem C9_counterexample:
  "\<not> (getSnapshotUrl 1700000000000 (js ''A1'') \<noteq> getSnapshotUrl 1700000000000 (js ''A1''))"
  by simp

text \<open>
  C9, amended: \<open>getSnapshotUrl\<close> returns the fixed prefix built from the id followed by
  the clock reading of the call in decimal; nothing is kept between calls, and two
  calls for an id return different URLs exactly when their clock readings differ.
\<close>

theorem C9_snapshot_url:
  "getSnapshotUrl t1 camId = (SNAPSHOT_BASE @ camId @ js ''.jpg?t='') @ showInt t1 \<and>
   getSnapshotUrl t2 camId = (SNAPSHOT_BASE @ camId @ js ''.jpg?t='') @ showInt t2 \<and>
   (showInt t1 = showInt t2 \<longleftrightarrow> t1 = t2) \<and>
   (getSnapshotUrl t1 camId = getSnapshotUrl t2 camId \<longleftrightarrow> t1 = t2)"
  by (simp add: getSnapshotUrl_def showInt_inj)

text \<open>The theorem at work: two calls one millisecond apart.\<close>

theorem C9_snapshot_url_witness:
  "(1700000000000 :: int) \<noteq> 1700000000001 \<and>
   getSnapshotUrl 1700000000000 (js ''A1'') \<noteq> getSnapshotUrl 1700000000001 (js ''A1'')"
  using C9_snapshot_url [of 1700000000000 "js ''A1''" 1700000000001] by simp

subsection \<open>C10: signed coordinates\<close>

text \<open>
  C10, as stated: for every detail page that publishes a signed latitude or longitude,
  \<open>parseCameraDetailHTML\<close> returns \<^verbatim>\<open>null\<close> for that coordinate and the camera is
  not cached.  A page with the latitudes \<^verbatim>\<open>-33.5\<close> and \<^verbatim>\<open>3\<close> publishes a signed
  latitude; the signed container does not match, the other one does, the parser
  returns 3 and the camera is cached.
\<close>

theorem C10_counterexample:
  "publishesSigned LAT_LABEL (trim (textContent (divOf (LAT_LABEL @ js '' -33.5'')))) \<and>
   divOf (LAT_LABEL @ js '' -33.5'') \<in> set (querySelectorAll docMixed (ByTag (js ''div''))) \<and>
   lat (parseCameraDetailHTML (parserOf docMixed) []) = Some (Fin 3) \<and>
   settled (resume (envOf (parserOf docMixed)) (okBody []) 0
       (stateAsked (envOf (parserOf docMixed)))) 0 = Some (Inr (Detail (Some 0))) \<and>
   coordCache (resume (envOf (parserOf docMixed)) (okBody []) 0
       (stateAsked (envOf (parserOf docMixed)))) (js ''A1'') = Some 0"
proof -
  let ?e = "envOf (parserOf docMixed)"
  have i: "inv_addr (stateAsked ?e)"
    using reachable_inv [OF reachable_stateAsked] by simp
  have t: "truthy (lat (parseCameraDetailHTML (parseFromString ?e) []))"
    "truthy (lon (parseCameraDetailHTML (parseFromString ?e) []))"
    by (simp_all add: envOf_simps parse_docMixed)
  have n: "nextAddr (stateAsked ?e) = 0" by (simp add: stateAsked_eq initial_def)
  note r = resumeDetail_success(1,2) [OF i stateAsked_task fetch_okBody t]
  have p: "publishesSigned LAT_LABEL (trim (textContent (divOf (LAT_LABEL @ js '' -33.5''))))"
    by (simp add: publishesSigned_def string_eval dom_eval)
  have m: "divOf (LAT_LABEL @ js '' -33.5'') \<in>
      set (querySelectorAll docMixed (ByTag (js ''div'')))"
    by (simp add: docMixed_def string_eval dom_eval)
  from r p m show ?thesis by (simp add: n parse_docMixed)
qed

text \<open>
  C10, amended: when every container that carries the latitude label (or every one that
  carries the longitude label) gives a signed value, \<open>parseCameraDetailHTML\<close> returns
  \<^verbatim>\<open>null\<close> for that coordinate, and the resumed detail request resolves with \<^verbatim>\<open>null\<close>
  and leaves both caches and every object as they are.
\<close>

theorem C10_signed_coordinates:
  assumes "signedPage LAT_LABEL (parseFromString e html) \<or>
           signedPage LON_LABEL (parseFromString e html)"
    and "tasks s p = Some (DetailTask url camId)" and "fetchWithProxy e net url = Inr html"
  shows
    "(signedPage LAT_LABEL (parseFromString e html) \<longrightarrow>
        lat (parseCameraDetailHTML (parseFromString e) html) = None) \<and>
     (signedPage LON_LABEL (parseFromString e html) \<longrightarrow>
        lon (parseCameraDetailHTML (parseFromString e) html) = None) \<and>
     settled (resume e net p s) p = Some (Inr (Detail None)) \<and>
     coordCache (resume e net p s) = coordCache s \<and>
     cameraCache (resume e net p s) = cameraCache s \<and>
     heap (resume e net p s) = heap s"
proof -
  have la: "lat (parseCameraDetailHTML (parseFromString e) html) = None"
    if "signedPage LAT_LABEL (parseFromString e html)"
    using signedPage_lastMatch [OF that] by (simp add: parse_coords)
  have lo: "lon (parseCameraDetailHTML (parseFromString e) html) = None"
    if "signedPage LON_LABEL (parseFromString e html)"
    using signedPage_lastMatch [OF that] by (simp add: parse_coords)
  from assms(1) la lo
  have "\<not> (truthy (lat (parseCameraDetailHTML (parseFromString e) html)) \<and>
      truthy (lon (parseCameraDetailHTML (parseFromString e) html)))"
    by auto
  note r = resumeDetail_null [OF assms(2,3) this]
  show ?thesis using la lo by (simp add: r)
qed

text \<open>The theorem at work: a page with the latitude \<^verbatim>\<open>-33.5\<close>.\<close>

theorem C10_signed_coordinates_witness:
  "signedPage LAT_LABEL docSouth \<and>
   tasks (stateAsked (envOf (parserOf docSouth))) 0 =
     Some (DetailTask (detailUrl (js ''A1'')) (js ''A1'')) \<and>
   fetchWithProxy (envOf (parserOf docSouth)) (okBody []) (detailUrl (js ''A1'')) = Inr [] \<and>
   lat (parseCameraDetailHTML (parserOf docSouth) []) = None \<and>
   settled (resume (envOf (parserOf docSouth)) (okBody []) 0
       (stateAsked (envOf (parserOf docSouth)))) 0 = Some (Inr (Detail None)) \<and>
   coordCache (resume (envOf (parserOf docSouth)) (okBody []) 0
       (stateAsked (envOf (parserOf docSouth)))) (js ''A1'') = None"
proof -
  have s: "signedPage LAT_LABEL docSouth"
    by (simp add: signedPage_def publishesSigned_def docSouth_def string_eval dom_eval)
  then have "signedPage LAT_LABEL (parseFromString (envOf (parserOf docSouth)) []) \<or>
      signedPage LON_LABEL (parseFromString (envOf (parserOf docSouth)) [])"
    by (simp add: envOf_simps parserOf_def)
  from C10_signed_coordinates [OF this stateAsked_task fetch_okBody] s
  show ?thesis
    by (simp add: envOf_simps parserOf_def stateAsked_task fetch_okBody)
       (simp add: stateAsked_eq initial_def)
qed

end
